theory Spec2Isabelle
  imports Main
begin

section \<open>Go strings as byte lists\<close>

text \<open>
  A Go \<^verbatim>\<open>string\<close> is a sequence of bytes; it is modelled as \<^typ>\<open>string\<close>, one
  \<^typ>\<open>char\<close> per byte (UTF-8 for text beyond ASCII).  The functions of package
  \<^verbatim>\<open>strings\<close> that the renderer calls are written out below.  Case mapping is that
  of ASCII: bytes from 0x80 on are left alone by \<open>ToLower\<close>.
\<close>

definition nl :: string where
  "nl = [CHR 0x0A]"

definition bslash :: string where
  "bslash = [CHR 0x5C]"

definition lower_char :: "char \<Rightarrow> char" where
  "lower_char c =
     (case map_of (zip ''ABCDEFGHIJKLMNOPQRSTUVWXYZ'' ''abcdefghijklmnopqrstuvwxyz'') c of
        Some d \<Rightarrow> d
      | None \<Rightarrow> c)"

definition ToLower :: "string \<Rightarrow> string" where
  "ToLower s = map lower_char s"

definition HasPrefix :: "string \<Rightarrow> string \<Rightarrow> bool" where
  "HasPrefix s p = (take (length p) s = p)"

definition HasSuffix :: "string \<Rightarrow> string \<Rightarrow> bool" where
  "HasSuffix s p = (length p \<le> length s \<and> drop (length s - length p) s = p)"

definition TrimPrefix :: "string \<Rightarrow> string \<Rightarrow> string" where
  "TrimPrefix s p = (if HasPrefix s p then drop (length p) s else s)"

definition TrimSuffix :: "string \<Rightarrow> string \<Rightarrow> string" where
  "TrimSuffix s p = (if HasSuffix s p then take (length s - length p) s else s)"

fun Contains :: "string \<Rightarrow> string \<Rightarrow> bool" where
  "Contains [] sub = (sub = [])"
| "Contains (c # cs) sub = (HasPrefix (c # cs) sub \<or> Contains cs sub)"

text \<open>
  \<open>ReplaceAll\<close> and \<open>Split\<close> scan from the left and take non-overlapping occurrences.
  The counter is the number of bytes of the occurrence just matched that are still to be
  skipped.  With an empty \<open>old\<close> Go inserts \<open>new\<close> around every character; with an empty
  separator \<open>Split\<close> cuts between characters (the renderer never does either).
\<close>

fun replace_go :: "string \<Rightarrow> string \<Rightarrow> nat \<Rightarrow> string \<Rightarrow> string" where
  "replace_go old new k [] = []"
| "replace_go old new (Suc k) (c # cs) = replace_go old new k cs"
| "replace_go old new 0 (c # cs) =
     (if HasPrefix (c # cs) old then new @ replace_go old new (length old - 1) cs
      else c # replace_go old new 0 cs)"

definition ReplaceAll :: "string \<Rightarrow> string \<Rightarrow> string \<Rightarrow> string" where
  "ReplaceAll s old new =
     (if old = [] then new @ concat (map (\<lambda>c. c # new) s) else replace_go old new 0 s)"

fun split_go :: "string \<Rightarrow> nat \<Rightarrow> string \<Rightarrow> string \<Rightarrow> string list" where
  "split_go sep k cur [] = [cur]"
| "split_go sep (Suc k) cur (c # cs) = split_go sep k cur cs"
| "split_go sep 0 cur (c # cs) =
     (if HasPrefix (c # cs) sep then cur # split_go sep (length sep - 1) [] cs
      else split_go sep 0 (cur @ [c]) cs)"

definition Split :: "string \<Rightarrow> string \<Rightarrow> string list" where
  "Split s sep = (if sep = [] then map (\<lambda>c. [c]) s else split_go sep 0 [] s)"

text \<open>\<open>SplitN s sep 2\<close>: cut at the first occurrence of \<open>sep\<close> only.\<close>

fun splitn2_go :: "string \<Rightarrow> string \<Rightarrow> string \<Rightarrow> string list" where
  "splitn2_go sep cur [] = [cur]"
| "splitn2_go sep cur (c # cs) =
     (if HasPrefix (c # cs) sep then [cur, drop (length sep) (c # cs)]
      else splitn2_go sep (cur @ [c]) cs)"

definition SplitN2 :: "string \<Rightarrow> string \<Rightarrow> string list" where
  "SplitN2 s sep = splitn2_go sep [] s"

fun Join :: "string list \<Rightarrow> string \<Rightarrow> string" where
  "Join [] sep = []"
| "Join [x] sep = x"
| "Join (x # y # ys) sep = x @ sep @ Join (y # ys) sep"

definition TrimLeftSet :: "string \<Rightarrow> string \<Rightarrow> string" where
  "TrimLeftSet s cutset = dropWhile (\<lambda>c. c \<in> set cutset) s"

definition TrimRight :: "string \<Rightarrow> string \<Rightarrow> string" where
  "TrimRight s cutset = rev (dropWhile (\<lambda>c. c \<in> set cutset) (rev s))"

definition Trim :: "string \<Rightarrow> string \<Rightarrow> string" where
  "Trim s cutset = TrimRight (TrimLeftSet s cutset) cutset"

text \<open>
  \<open>TrimSpace\<close> removes leading and trailing white space as Unicode defines it.  On the
  bytes of a string these are the UTF-8 encodings of the characters with the property
  White_Space: the six ASCII ones, U+0085, U+00A0, U+1680, U+2000 to U+200A, U+2028,
  U+2029, U+202F, U+205F and U+3000.  Each step removes one encoded character, so a
  string is done after as many steps as it has bytes.
\<close>

definition white_space :: "string list" where
  "white_space =
     [[CHR 0x09], [CHR 0x0A], [CHR 0x0B], [CHR 0x0C], [CHR 0x0D], [CHR 0x20],
      [CHR 0xC2, CHR 0x85], [CHR 0xC2, CHR 0xA0], [CHR 0xE1, CHR 0x9A, CHR 0x80],
      [CHR 0xE2, CHR 0x80, CHR 0x80], [CHR 0xE2, CHR 0x80, CHR 0x81],
      [CHR 0xE2, CHR 0x80, CHR 0x82], [CHR 0xE2, CHR 0x80, CHR 0x83],
      [CHR 0xE2, CHR 0x80, CHR 0x84], [CHR 0xE2, CHR 0x80, CHR 0x85],
      [CHR 0xE2, CHR 0x80, CHR 0x86], [CHR 0xE2, CHR 0x80, CHR 0x87],
      [CHR 0xE2, CHR 0x80, CHR 0x88], [CHR 0xE2, CHR 0x80, CHR 0x89],
      [CHR 0xE2, CHR 0x80, CHR 0x8A], [CHR 0xE2, CHR 0x80, CHR 0xA8],
      [CHR 0xE2, CHR 0x80, CHR 0xA9], [CHR 0xE2, CHR 0x80, CHR 0xAF],
      [CHR 0xE2, CHR 0x81, CHR 0x9F], [CHR 0xE3, CHR 0x80, CHR 0x80]]"

fun trim_space_left :: "nat \<Rightarrow> string \<Rightarrow> string" where
  "trim_space_left 0 s = s"
| "trim_space_left (Suc k) s =
     (case find (HasPrefix s) white_space of
        None \<Rightarrow> s
      | Some q \<Rightarrow> trim_space_left k (drop (length q) s))"

fun trim_space_right :: "nat \<Rightarrow> string \<Rightarrow> string" where
  "trim_space_right 0 s = s"
| "trim_space_right (Suc k) s =
     (case find (HasSuffix s) white_space of
        None \<Rightarrow> s
      | Some q \<Rightarrow> trim_space_right k (take (length s - length q) s))"

definition TrimSpace :: "string \<Rightarrow> string" where
  "TrimSpace s =
     (let s = trim_space_left (length s) s in trim_space_right (length s) s)"

section \<open>Library functions taken as parameters\<close>

text \<open>
  \<open>url.Parse\<close>, SHA-256, the YAML encoder and the path functions of \<open>filepath\<close> that
  only build names for the file system belong to Go's libraries.  They are parameters of
  the model.  A parsed URL carries the four fields the renderer reads.
\<close>

record url =
  Scheme :: string
  Host :: string
  Path :: string
  RawQuery :: string

datatype error = Err string | Errorf string error | HTTPStatus nat string

datatype pvalue = VStr string | VList "string list" | VBool bool

record golib =
  url_Parse :: "string \<Rightarrow> url option"
  sha256_hex :: "string \<Rightarrow> string"
  yaml_Marshal :: "(string \<Rightarrow> pvalue option) \<Rightarrow> error + string"
  filepath_Dir :: "string \<Rightarrow> string"
  filepath_Join :: "string \<Rightarrow> string \<Rightarrow> string"

section \<open>Slugs\<close>

definition slug_safe :: "char \<Rightarrow> bool" where
  "slug_safe c = (c \<in> set ''abcdefghijklmnopqrstuvwxyz0123456789-_'')"

definition slugify :: "string \<Rightarrow> string" where
  "slugify s = filter slug_safe (ReplaceAll (ToLower s) '' '' ''-'')"

section \<open>Rich text\<close>

record annotations =
  Bold :: bool
  Italic :: bool
  Strikethrough :: bool
  Underline :: bool
  Code :: bool

record rich_text =
  PlainText :: string
  Href :: string
  Annotations :: annotations

definition escapeBackticks :: "string \<Rightarrow> string" where
  "escapeBackticks s = ReplaceAll s ''`'' (bslash @ ''`'')"

definition escapeMarkdown :: "string \<Rightarrow> string" where
  "escapeMarkdown s = ReplaceAll (ReplaceAll s ''['' (bslash @ ''['')) '']'' (bslash @ '']'')"

text \<open>The four wrapping steps shared by both rich-text functions, in the source's order.\<close>

definition wrap_annotations :: "annotations \<Rightarrow> string \<Rightarrow> string" where
  "wrap_annotations a txt =
     (let wrapped = txt;
          wrapped = (if Bold a then ''**'' @ wrapped @ ''**'' else wrapped);
          wrapped = (if Italic a then ''*'' @ wrapped @ ''*'' else wrapped);
          wrapped = (if Strikethrough a then ''~~'' @ wrapped @ ''~~'' else wrapped);
          wrapped = (if Underline a then ''<u>'' @ wrapped @ ''</u>'' else wrapped)
      in wrapped)"

definition richTextAnnotationsToMarkdown :: "rich_text \<Rightarrow> string" where
  "richTextAnnotationsToMarkdown t =
     (let txt = PlainText t in
      if Code (Annotations t) then ''`'' @ escapeBackticks txt @ ''`''
      else wrap_annotations (Annotations t) txt)"

section \<open>Link resolution\<close>

definition is_hex :: "char \<Rightarrow> bool" where
  "is_hex c = (c \<in> set ''0123456789abcdefABCDEF'')"

text \<open>
  The two regular expressions are anchored at the end of the segment and match a fixed
  number of characters, so a match is the last 36 (or 32) characters of the segment.
\<close>

definition is_dashed_uuid :: "string \<Rightarrow> bool" where
  "is_dashed_uuid s =
     (length s = 36 \<and>
      list_all is_hex (take 8 s) \<and> take 1 (drop 8 s) = ''-'' \<and>
      list_all is_hex (take 4 (drop 9 s)) \<and> take 1 (drop 13 s) = ''-'' \<and>
      list_all is_hex (take 4 (drop 14 s)) \<and> take 1 (drop 18 s) = ''-'' \<and>
      list_all is_hex (take 4 (drop 19 s)) \<and> take 1 (drop 23 s) = ''-'' \<and>
      list_all is_hex (drop 24 s))"

definition reDashed :: "string \<Rightarrow> string option" where
  "reDashed seg =
     (let m = drop (length seg - 36) seg in
      if 36 \<le> length seg \<and> is_dashed_uuid m then Some m else None)"

definition reNoDash :: "string \<Rightarrow> string option" where
  "reNoDash seg =
     (let m = drop (length seg - 32) seg in
      if 32 \<le> length seg \<and> list_all is_hex m then Some m else None)"

text \<open>
  The middle part of \<open>notionURLToHugoLink\<close>: the identifier at the end of the last path
  segment and the title part before it (both empty when neither expression matches).
\<close>

definition match_uuid :: "string \<Rightarrow> string \<times> string" where
  "match_uuid lastSegment =
     (case reDashed lastSegment of
        Some u \<Rightarrow>
          (let tp = TrimSuffix lastSegment (''-'' @ u) in
           (u, if tp = lastSegment then TrimSuffix lastSegment u else tp))
      | None \<Rightarrow>
          (case reNoDash lastSegment of
             Some u \<Rightarrow> (u, TrimSuffix (TrimSuffix lastSegment u) ''-'')
           | None \<Rightarrow> ([], [])))"

definition notionURLToHugoLink ::
  "golib \<Rightarrow> string \<Rightarrow> (string \<Rightarrow> string) option \<Rightarrow> string" where
  "notionURLToHugoLink L raw resolve =
     (if raw = [] then raw
      else case url_Parse L raw of
        None \<Rightarrow> raw
      | Some parsedURL \<Rightarrow>
          if Host parsedURL = [] then raw
          else if \<not> Contains (Host parsedURL) ''notion.so'' then raw
          else
            let pathSegments = Split (Trim (Path parsedURL) ''/'') ''/'';
                lastSegment = last pathSegments;
                (uuid, titlePart) = match_uuid lastSegment
            in
            if uuid = [] then raw
            else
              let normalizedUUID = ReplaceAll uuid ''-'' [];
                  resolvedPath = (case resolve of None \<Rightarrow> [] | Some r \<Rightarrow> r normalizedUUID)
              in
              if resolvedPath \<noteq> [] then resolvedPath
              else
                let titlePart = (if titlePart = [] then lastSegment else titlePart);
                    slug = slugify (ReplaceAll titlePart ''-'' '' '');
                    slug = (if slug = [] then normalizedUUID else slug)
                in ''/posts/'' @ slug @ ''/'')"

fun richTextSpan :: "golib \<Rightarrow> (string \<Rightarrow> string) option \<Rightarrow> rich_text \<Rightarrow> string" where
  "richTextSpan L resolve t =
     (let txt = PlainText t in
      if Href t \<noteq> [] then
        ''['' @ escapeMarkdown (richTextAnnotationsToMarkdown t) @ '']('' @
          notionURLToHugoLink L (Href t) resolve @ '')''
      else if Code (Annotations t) then ''`'' @ escapeBackticks txt @ ''`''
      else wrap_annotations (Annotations t) txt)"

definition richTextArrToMarkdown ::
  "golib \<Rightarrow> rich_text list \<Rightarrow> (string \<Rightarrow> string) option \<Rightarrow> string" where
  "richTextArrToMarkdown L arr resolve = foldl (\<lambda>result t. result @ richTextSpan L resolve t) [] arr"

section \<open>Page metadata\<close>

text \<open>
  A page carries its two time stamps, already formatted (\<open>None\<close> for the zero time), and
  its properties.  Go iterates over the property map in an unspecified order; the list
  \<open>PageProperties\<close> is the map in the order of that iteration.  \<open>OtherProperty\<close> stands
  for the property kinds that \<open>extractPropertyValue\<close> maps to \<open>nil\<close>.
\<close>

datatype property =
    TitleProperty "rich_text list"
  | RichTextProperty "rich_text list"
  | DateProperty "string option"
  | SelectProperty string
  | MultiSelectProperty "string list"
  | StatusProperty string
  | OtherProperty

record page =
  CreatedTime :: "string option"
  LastEditedTime :: "string option"
  PageProperties :: "(string \<times> property) list"

record metadata =
  Title :: string
  Slug :: string
  pathType :: string
  Properties :: "string \<Rightarrow> pvalue option"

fun extractPropertyValue :: "property \<Rightarrow> pvalue option" where
  "extractPropertyValue (TitleProperty v) = (if v \<noteq> [] then Some (VStr (PlainText (hd v))) else None)"
| "extractPropertyValue (RichTextProperty v) = (if v \<noteq> [] then Some (VStr (PlainText (hd v))) else None)"
| "extractPropertyValue (DateProperty v) = (case v of Some d \<Rightarrow> Some (VStr d) | None \<Rightarrow> None)"
| "extractPropertyValue (SelectProperty v) = Some (VStr v)"
| "extractPropertyValue (MultiSelectProperty v) = Some (VList v)"
| "extractPropertyValue (StatusProperty v) = Some (VStr v)"
| "extractPropertyValue OtherProperty = None"

definition setProperty :: "metadata \<Rightarrow> string \<Rightarrow> pvalue \<Rightarrow> metadata" where
  "setProperty m k v = m\<lparr>Properties := (Properties m)(k \<mapsto> v)\<rparr>"

definition parseType :: "metadata \<Rightarrow> string \<Rightarrow> metadata" where
  "parseType m str =
     (let originalType = str;
          m = setProperty m ''type'' (VStr originalType)
      in
      if Contains originalType '':'' then
        (let parts = SplitN2 originalType '':'' in
         if length parts = 2 then
           (let pathCategory = ToLower (TrimSpace (parts ! 0));
                typeValue = TrimSpace (parts ! 1)
            in
            if pathCategory = ''pages''
            then setProperty (m\<lparr>pathType := ''pages''\<rparr>) ''type'' (VStr typeValue)
            else m\<lparr>pathType := ToLower originalType\<rparr>)
         else m\<lparr>pathType := ToLower originalType\<rparr>)
      else
        (let lowerType = ToLower originalType in
         if lowerType = ''post''
         then setProperty (m\<lparr>pathType := ''posts''\<rparr>) ''type'' (VStr ''posts'')
         else m\<lparr>pathType := lowerType\<rparr>))"

definition parseProperty :: "metadata \<Rightarrow> string \<times> property \<Rightarrow> metadata" where
  "parseProperty m kp =
     (let k = fst kp; prop = snd kp; lowerKey = ToLower k in
      if lowerKey = ''title'' \<or> lowerKey = ''name'' then
        (case prop of
           TitleProperty tp \<Rightarrow>
             if tp \<noteq> [] then setProperty (m\<lparr>Title := PlainText (hd tp)\<rparr>) ''title'' (VStr (PlainText (hd tp)))
             else m
         | _ \<Rightarrow> m)
      else if lowerKey = ''slug'' then
        (case extractPropertyValue prop of
           Some (VStr str) \<Rightarrow> if str \<noteq> [] then setProperty (m\<lparr>Slug := str\<rparr>) ''slug'' (VStr str) else m
         | _ \<Rightarrow> m)
      else if lowerKey = ''date'' then
        (case prop of
           DateProperty (Some dateStr) \<Rightarrow> setProperty m ''date'' (VStr dateStr)
         | _ \<Rightarrow> m)
      else if lowerKey = ''type'' then
        (case extractPropertyValue prop of
           Some (VStr str) \<Rightarrow> if str \<noteq> [] then parseType m str else m
         | _ \<Rightarrow> m)
      else if lowerKey = ''status'' then
        (case prop of
           StatusProperty statusName \<Rightarrow>
             (let m = setProperty m ''status'' (VStr statusName) in
              if ToLower statusName = ''draft'' then setProperty m ''draft'' (VBool True) else m)
         | _ \<Rightarrow> m)
      else
        (case extractPropertyValue prop of
           Some v \<Rightarrow> setProperty m k v
         | None \<Rightarrow> m))"

definition parseMetadata :: "page \<Rightarrow> metadata" where
  "parseMetadata pg =
     (let m = \<lparr>Title = ''untitled'', Slug = [], pathType = [], Properties = Map.empty\<rparr>;
          m = (case CreatedTime pg of Some t \<Rightarrow> setProperty m ''date'' (VStr t) | None \<Rightarrow> m);
          m = (case LastEditedTime pg of Some t \<Rightarrow> setProperty m ''lastmod'' (VStr t) | None \<Rightarrow> m);
          m = foldl parseProperty m (PageProperties pg);
          m = (if Slug m = [] then m\<lparr>Slug := Title m\<rparr> else m);
          m = m\<lparr>Slug := slugify (Slug m)\<rparr>
      in
      if pathType m = [] then
        (case Properties m ''type'' of
           Some (VStr str) \<Rightarrow> m\<lparr>pathType := str\<rparr>
         | _ \<Rightarrow> m)
      else m)"

definition GetPagePath :: "page \<Rightarrow> string" where
  "GetPagePath pg =
     (let m = parseMetadata pg; safeType = slugify (pathType m) in
      if safeType = [] then ''/posts/'' @ Slug m @ ''/''
      else if safeType = ''pages'' then ''/'' @ Slug m @ ''/''
      else ''/'' @ safeType @ ''/'' @ Slug m @ ''/'')"

section \<open>Templates and render configuration\<close>

text \<open>
  \<open>renderTemplate\<close> ranges over a Go map; the list is the map in the order of that
  iteration (which Go leaves unspecified).  Every call site passes the literal map of the
  source, listed in the order it is written there.
\<close>

definition renderTemplate :: "string \<Rightarrow> (string \<times> string) list \<Rightarrow> string" where
  "renderTemplate template data' =
     foldl (\<lambda>result kv. ReplaceAll result (''{{.'' @ fst kv @ ''}}'') (snd kv)) template data'"

record RenderConfig =
  MathTemplate :: string
  DetailsTemplate :: string
  VideoTemplate :: string
  PDFTemplate :: string
  EmbedTemplate :: string
  CalloutTemplate :: string
  FileTemplate :: string

definition dquote :: string where
  "dquote = [CHR 0x22]"

definition DefaultRenderConfig :: RenderConfig where
  "DefaultRenderConfig =
     \<lparr>MathTemplate = ''{{< math >}}'' @ nl @ ''$$'' @ nl @ ''{{.Expression}}'' @ nl @ ''$$'' @ nl @
                      ''{{< /math >}}'',
      DetailsTemplate = ''{{< details summary='' @ dquote @ ''{{.Summary}}'' @ dquote @ ''>}}'' @ nl @
                         ''{{.Content}}'' @ nl @ ''{{< /details >}}'',
      VideoTemplate = ''{{< video src='' @ dquote @ ''{{.URL}}'' @ dquote @ '' >}}'',
      PDFTemplate = ''{{< pdf src='' @ dquote @ ''{{.URL}}'' @ dquote @ '' >}}'',
      EmbedTemplate = ''{{< embed url='' @ dquote @ ''{{.URL}}'' @ dquote @ '' >}}'',
      CalloutTemplate = ''> {{.Content}}'',
      FileTemplate = ''[{{.Text}}]({{.URL}})''\<rparr>"

section \<open>File cache\<close>

text \<open>
  The file system and the network are read through five functions: what \<open>os.MkdirAll\<close>,
  \<open>os.Stat\<close>, \<open>http.Client.Get\<close> (the status code of the response), \<open>os.Create\<close> and
  \<open>io.Copy\<close> answer for a given path or URL.  \<open>None\<close> is Go's \<open>nil\<close> error.
\<close>

record fsio =
  os_MkdirAll :: "string \<Rightarrow> error option"
  os_Stat :: "string \<Rightarrow> error option"
  http_Get :: "string \<Rightarrow> error + nat"
  os_Create :: "string \<Rightarrow> error option"
  io_Copy :: "string \<Rightarrow> error option"

record FileCache =
  basePath :: string
  httpClient :: fsio

text \<open>\<open>filepath.Ext\<close> and \<open>filepath.Base\<close> with the separator \<open>/\<close>.\<close>

fun ext_go :: "string \<Rightarrow> string \<Rightarrow> string" where
  "ext_go [] suffix = []"
| "ext_go (c # cs) suffix =
     (if c = CHR ''/'' then []
      else if c = CHR ''.'' then c # suffix
      else ext_go cs (c # suffix))"

definition filepath_Ext :: "string \<Rightarrow> string" where
  "filepath_Ext path = ext_go (rev path) []"

definition filepath_Base :: "string \<Rightarrow> string" where
  "filepath_Base path =
     (if path = [] then ''.''
      else
        let path = TrimRight path ''/'';
            path = rev (takeWhile (\<lambda>c. c \<noteq> CHR ''/'') (rev path))
        in if path = [] then ''/'' else path)"

definition extractFileIdentifier :: "golib \<Rightarrow> string \<Rightarrow> string" where
  "extractFileIdentifier L notionURL =
     (case url_Parse L notionURL of
        None \<Rightarrow> notionURL
      | Some parsed \<Rightarrow>
          if Contains (Host parsed) ''amazonaws.com'' then Path parsed
          else if Contains (Host parsed) ''notion.so'' then Host parsed @ Path parsed
          else Host parsed @ Path parsed)"

definition extractExtension :: "golib \<Rightarrow> string \<Rightarrow> string" where
  "extractExtension L u =
     (case url_Parse L u of
        None \<Rightarrow> ''.bin''
      | Some parsed \<Rightarrow>
          let path = Path parsed;
              ext = filepath_Ext path
          in
          if ext = [] then
            (if Contains u ''image'' then ''.jpg''
             else if Contains u ''video'' then ''.mp4''
             else if Contains u ''pdf'' then ''.pdf''
             else ''.bin'')
          else ext)"

text \<open>
  \<open>generateFilename\<close> never returns an error.  \<open>sha256_hex\<close> is the digest printed with
  \<open>%x\<close>, 64 characters, of which the first eight are kept.
\<close>

definition generateFilename :: "golib \<Rightarrow> string \<Rightarrow> string" where
  "generateFilename L notionURL =
     (let ext = extractExtension L notionURL;
          fileId = extractFileIdentifier L notionURL;
          hash = sha256_hex L fileId
      in take 8 hash @ ext)"

definition downloadFile :: "FileCache \<Rightarrow> string \<Rightarrow> string \<Rightarrow> error option" where
  "downloadFile fc url' localPath =
     (case http_Get (httpClient fc) url' of
        Inl err \<Rightarrow> Some (Errorf (''failed to fetch URL '' @ url') err)
      | Inr statusCode \<Rightarrow>
          if statusCode \<noteq> 200 then Some (HTTPStatus statusCode url')
          else
            (case os_Create (httpClient fc) localPath of
               Some err \<Rightarrow> Some (Errorf (''failed to create file '' @ localPath) err)
             | None \<Rightarrow>
                 (case io_Copy (httpClient fc) localPath of
                    Some err \<Rightarrow> Some (Errorf (''failed to write file '' @ localPath) err)
                  | None \<Rightarrow> None)))"

definition CacheFile :: "golib \<Rightarrow> FileCache \<Rightarrow> string \<Rightarrow> string \<Rightarrow> error + string" where
  "CacheFile L fc notionURL articlePath =
     (let articleDir = filepath_Dir L articlePath;
          fullArticleDir = filepath_Join L (basePath fc) articleDir
      in
      case os_MkdirAll (httpClient fc) fullArticleDir of
        Some err \<Rightarrow> Inl (Errorf (''failed to create directory '' @ fullArticleDir) err)
      | None \<Rightarrow>
          let filename = generateFilename L notionURL;
              localPath = filepath_Join L fullArticleDir filename
          in
          if os_Stat (httpClient fc) localPath = None then Inr (''./'' @ filename)
          else
            (case downloadFile fc notionURL localPath of
               Some err \<Rightarrow> Inl (Errorf ''failed to download file'' err)
             | None \<Rightarrow> Inr (''./'' @ filename)))"

section \<open>Labels and captions\<close>

text \<open>
  \<open>shortenURLLabel\<close> returns from three places; each part below yields \<open>None\<close> where the
  source falls through to the next one.  Lengths are byte counts.
\<close>

definition shorten_filename :: "url \<Rightarrow> string option" where
  "shorten_filename u =
     (let max = 40;
          filename = filepath_Base (Path u)
      in
      if filename \<noteq> ''.'' \<and> filename \<noteq> ''/'' \<and> Contains filename ''.'' then
        (if length filename \<le> max - 10 \<and> Host u \<noteq> [] \<and> length (Host u) + length filename + 5 \<le> max
         then Some (Host u @ ''/.../'' @ filename)
         else if length filename \<le> max then Some filename
         else if length filename > max - 3 then
           (let ext = filepath_Ext filename;
                nameLen = max - length ext - 3;
                base = take (length filename - length ext) filename
            in
            if length ext \<le> 8 \<and> length ext > 0 \<and> nameLen > 0 \<and> length base > nameLen
            then Some (take nameLen base @ ''...'' @ ext)
            else Some (take (max - 3) filename @ ''...''))
         else None)
      else None)"

definition shorten_host :: "url \<Rightarrow> string option" where
  "shorten_host u =
     (let max = 40 in
      if Host u \<noteq> [] then
        (let cleanURL = Host u @ Path u;
             cleanURL = (if RawQuery u \<noteq> [] then cleanURL @ ''?'' @ RawQuery u else cleanURL);
             pathParts = Split (Trim (Path u) ''/'') ''/'';
             candidate = Host u @ ''/'' @ hd pathParts
         in
         if length cleanURL \<le> max then Some cleanURL
         else if pathParts \<noteq> [] \<and> hd pathParts \<noteq> [] \<and> length candidate \<le> max
         then Some (candidate @ ''...'')
         else if length (Host u) \<le> max - 3 then Some (Host u @ ''...'')
         else None)
      else None)"

definition shortenURLLabel :: "golib \<Rightarrow> string \<Rightarrow> string" where
  "shortenURLLabel L raw =
     (if raw = [] then []
      else
        let max = 40;
            fallback = (if length raw \<le> max then raw else take (max - 3) raw @ ''...'')
        in
        case url_Parse L raw of
          None \<Rightarrow> fallback
        | Some u \<Rightarrow>
            if Scheme u \<noteq> [] then
              (case shorten_filename u of
                 Some label \<Rightarrow> label
               | None \<Rightarrow> (case shorten_host u of Some label \<Rightarrow> label | None \<Rightarrow> fallback))
            else fallback)"

definition captionFirstParagraph ::
  "golib \<Rightarrow> rich_text list \<Rightarrow> (string \<Rightarrow> string) option \<Rightarrow> string" where
  "captionFirstParagraph L arr resolve =
     (if arr = [] then []
      else
        let full = richTextArrToMarkdown L arr resolve;
            parts = Split full (nl @ nl)
        in if parts = [] then TrimSpace full else TrimSpace (hd parts))"

text \<open>
  An image, file, PDF or video block holds a file hosted by Notion (\<open>File\<close>), an external
  one (\<open>External\<close>), or neither, and a caption.  The four \<open>getFileURL\<close> methods of the
  source are the same function on the four block types.
\<close>

record media =
  File :: "string option"
  External :: "string option"
  Caption :: "rich_text list"

definition getFileURL :: "media \<Rightarrow> string \<times> bool" where
  "getFileURL m =
     (case File m of
        Some u \<Rightarrow> (u, True)
      | None \<Rightarrow> (case External m of Some u \<Rightarrow> (u, False) | None \<Rightarrow> ([], False)))"

definition processFileURLWithCache ::
  "golib \<Rightarrow> media \<Rightarrow> FileCache option \<Rightarrow> string \<Rightarrow> string \<times> string" where
  "processFileURLWithCache L extractor fileCache articlePath =
     (let (originalURL, shouldCache) = getFileURL extractor in
      if originalURL = [] then ([], [])
      else
        let caption = Caption extractor;
            text' = (if caption \<noteq> [] then captionFirstParagraph L caption None else []);
            text' = (if text' = [] then escapeMarkdown (shortenURLLabel L originalURL) else text');
            url' =
              (case fileCache of
                 Some fc \<Rightarrow>
                   if shouldCache \<and> articlePath \<noteq> [] then
                     (case CacheFile L fc originalURL articlePath of
                        Inr cachedPath \<Rightarrow> cachedPath
                      | Inl err \<Rightarrow> originalURL)
                   else originalURL
               | None \<Rightarrow> originalURL)
        in (url', text'))"

section \<open>Blocks\<close>

text \<open>
  A block is its identifier, its has-children flag and the payload of its kind.  Only the
  fields that the renderer reads are kept.  \<open>UnsupportedBlock\<close> stands for every block
  type of the client library that the renderer does not name.
\<close>

datatype block_data =
    ParagraphBlock "rich_text list"
  | Heading1Block "rich_text list"
  | Heading2Block "rich_text list"
  | Heading3Block "rich_text list"
  | BulletedListItemBlock "rich_text list"
  | NumberedListItemBlock "rich_text list"
  | ToDoBlock "rich_text list" bool
  | ToggleBlock "rich_text list"
  | EquationBlock string
  | CodeBlock "rich_text list" string
  | QuoteBlock "rich_text list"
  | CalloutBlock "rich_text list"
  | DividerBlock
  | ImageBlock media
  | BookmarkBlock string "rich_text list"
  | EmbedBlock string "rich_text list"
  | LinkPreviewBlock string
  | FileBlock media
  | PdfBlock media
  | VideoBlock media
  | TableBlock bool
  | TableRowBlock "rich_text list list"
  | ColumnListBlock
  | ColumnBlock
  | UnsupportedBlock

record block =
  ID :: string
  HasChildren :: bool
  Data :: block_data

subsection \<open>Per-kind formatters\<close>

definition renderListItemWithChild :: "string \<Rightarrow> string \<Rightarrow> string" where
  "renderListItemWithChild base childContent =
     (if childContent = [] then base else base @ nl @ childContent)"

definition dedentChildContent :: "string \<Rightarrow> string" where
  "dedentChildContent childContent =
     (if childContent = [] then childContent
      else Join (map (\<lambda>l. if HasPrefix l ''    '' then TrimPrefix l ''    '' else l)
                   (Split childContent nl)) nl)"

definition toDoToMarkdown ::
  "golib \<Rightarrow> rich_text list \<Rightarrow> bool \<Rightarrow> string \<Rightarrow> (string \<Rightarrow> string) option \<Rightarrow> string" where
  "toDoToMarkdown L rt checked childContent resolve =
     (let mark = (if checked then ''x'' else '' '');
          base = ''- ['' @ mark @ ''] '' @ richTextArrToMarkdown L rt resolve
      in renderListItemWithChild base childContent)"

definition toggleToMarkdown ::
  "golib \<Rightarrow> rich_text list \<Rightarrow> string \<Rightarrow> (string \<Rightarrow> string) option \<Rightarrow> RenderConfig \<Rightarrow> string" where
  "toggleToMarkdown L rt childContent resolve config =
     (let summary = richTextArrToMarkdown L rt resolve in
      if childContent = [] then ''> '' @ summary
      else
        let childContent = dedentChildContent childContent
        in renderTemplate (DetailsTemplate config)
             [(''Summary'', summary), (''Content'', childContent)])"

definition equationToMarkdown :: "string \<Rightarrow> RenderConfig \<Rightarrow> string" where
  "equationToMarkdown expression config =
     (if expression \<noteq> [] then renderTemplate (MathTemplate config) [(''Expression'', expression)]
      else [])"

text \<open>The first loop of \<open>calloutToMarkdown\<close>: it stops at the first non-blank line.\<close>

fun callout_addSeparator :: "string list \<Rightarrow> bool" where
  "callout_addSeparator [] = False"
| "callout_addSeparator (l # ls) =
     (let t = TrimSpace l in
      if t = [] then callout_addSeparator ls
      else \<not> (HasPrefix t ''-'' \<or> HasPrefix t ''1.'' \<or> HasPrefix t ''*'' \<or> HasPrefix t ''<'' \<or>
              HasPrefix t ''|''))"

definition calloutToMarkdown ::
  "golib \<Rightarrow> rich_text list \<Rightarrow> string \<Rightarrow> (string \<Rightarrow> string) option \<Rightarrow> RenderConfig \<Rightarrow> string" where
  "calloutToMarkdown L rt childContent resolve config =
     (let contentText = richTextArrToMarkdown L rt resolve;
          contentText =
            (if childContent \<noteq> [] then
               (let childContent = dedentChildContent childContent;
                    lines = Split childContent nl;
                    addSeparator = callout_addSeparator lines;
                    childLines =
                      (if addSeparator then [''> ''] else []) @
                      map (\<lambda>l. if TrimSpace l = [] then ''> '' else ''> '' @ l) lines
                in contentText @ nl @ Join childLines nl)
             else contentText)
      in renderTemplate (CalloutTemplate config) [(''Content'', contentText)])"

definition imageToMarkdownWithCache ::
  "golib \<Rightarrow> media \<Rightarrow> FileCache option \<Rightarrow> string \<Rightarrow> string" where
  "imageToMarkdownWithCache L b fileCache articlePath =
     (let (url', alt) = processFileURLWithCache L b fileCache articlePath in
      if url' = [] then []
      else ''!['' @ escapeMarkdown alt @ '']('' @ url' @ '')'')"

definition renderLinkWithCaption :: "golib \<Rightarrow> string \<Rightarrow> rich_text list \<Rightarrow> string" where
  "renderLinkWithCaption L url' caption =
     (let text' = (if caption \<noteq> [] then captionFirstParagraph L caption None else []) in
      if caption \<noteq> [] \<and> text' \<noteq> [] then ''['' @ text' @ '']('' @ url' @ '')''
      else ''['' @ escapeMarkdown (shortenURLLabel L url') @ '']('' @ url' @ '')'')"

text \<open>\<open>tableToMarkdown\<close> iterates twice: it parses the lines, then pads the rows.\<close>

definition table_parts :: "string \<Rightarrow> string list" where
  "table_parts ln =
     map TrimSpace (if Contains ln '' | '' then Split ln '' | '' else Split ln ''|'')"

fun table_parse :: "string list \<Rightarrow> string list list \<Rightarrow> nat \<Rightarrow> string list list \<times> nat" where
  "table_parse [] parsed maxCols = (parsed, maxCols)"
| "table_parse (ln # lns) parsed maxCols =
     (if TrimSpace ln = [] then table_parse lns parsed maxCols
      else
        let parts = table_parts ln;
            maxCols = (if length parts > maxCols then length parts else maxCols)
        in table_parse lns (parsed @ [parts]) maxCols)"

definition table_normalize :: "nat \<Rightarrow> string list \<Rightarrow> string" where
  "table_normalize maxCols parts =
     (let parts = (if length parts < maxCols then parts @ replicate (maxCols - length parts) []
                   else parts)
      in ''| '' @ Join parts '' | '' @ '' |'')"

definition tableToMarkdown :: "bool \<Rightarrow> string \<Rightarrow> string" where
  "tableToMarkdown hasColumnHeader childContent =
     (let childContent = dedentChildContent childContent;
          s = TrimSpace childContent
      in
      if s = [] then []
      else
        let lines = Split s nl;
            (parsed, maxCols) = table_parse lines [] 0
        in
        if parsed = [] then []
        else
          let normalized = map (table_normalize maxCols) parsed in
          if hasColumnHeader \<and> normalized \<noteq> [] then
            (let sep = replicate maxCols ''---'';
                 header = hd normalized;
                 rest = (if length normalized > 1 then nl @ Join (tl normalized) nl else [])
             in header @ nl @ ''| '' @ Join sep '' | '' @ '' |'' @ rest)
          else Join normalized nl)"

definition tableRowToMarkdown ::
  "golib \<Rightarrow> rich_text list list \<Rightarrow> (string \<Rightarrow> string) option \<Rightarrow> string" where
  "tableRowToMarkdown L cells resolve =
     (if cells = [] then []
      else Join (map (\<lambda>cell. TrimSpace (richTextArrToMarkdown L cell resolve)) cells) '' | '')"

definition embedToMarkdown :: "golib \<Rightarrow> string \<Rightarrow> rich_text list \<Rightarrow> RenderConfig \<Rightarrow> string" where
  "embedToMarkdown L url' caption config =
     (let text' = (if caption \<noteq> [] then captionFirstParagraph L caption None else []);
          text' = (if text' = [] then escapeMarkdown (shortenURLLabel L url') else text')
      in renderTemplate (EmbedTemplate config) [(''URL'', url'), (''Text'', text')])"

definition columnListToMarkdown :: "string \<Rightarrow> string" where
  "columnListToMarkdown childContent =
     (if TrimSpace childContent = [] then []
      else
        let childContent = dedentChildContent childContent;
            parts = Split childContent ''__COLUMN_BREAK__'';
            cols = map (\<lambda>p. ''<td>'' @ nl @ nl @ p @ nl @ ''</td>'')
                     (filter (\<lambda>p. p \<noteq> []) (map TrimSpace parts))
        in if cols = [] then [] else ''<table><tr>'' @ Join cols [] @ ''</tr></table>'')"

definition linkPreviewToMarkdown :: "golib \<Rightarrow> string \<Rightarrow> string" where
  "linkPreviewToMarkdown L url' =
     (let text' = shortenURLLabel L url' in ''['' @ escapeMarkdown text' @ '']('' @ url' @ '')'')"

text \<open>\<open>fileToMarkdownWithCache\<close>, \<open>pdfToMarkdownWithCache\<close> and \<open>videoToMarkdownWithCache\<close>
  differ in the template only.\<close>

definition templateToMarkdownWithCache ::
  "golib \<Rightarrow> string \<Rightarrow> media \<Rightarrow> FileCache option \<Rightarrow> string \<Rightarrow> string" where
  "templateToMarkdownWithCache L template b fileCache articlePath =
     (let (url', text') = processFileURLWithCache L b fileCache articlePath in
      if url' = [] then []
      else renderTemplate template [(''URL'', url'), (''Text'', text')])"

definition fileToMarkdownWithCache ::
  "golib \<Rightarrow> media \<Rightarrow> FileCache option \<Rightarrow> string \<Rightarrow> RenderConfig \<Rightarrow> string" where
  "fileToMarkdownWithCache L b fileCache articlePath config =
     templateToMarkdownWithCache L (FileTemplate config) b fileCache articlePath"

definition pdfToMarkdownWithCache ::
  "golib \<Rightarrow> media \<Rightarrow> FileCache option \<Rightarrow> string \<Rightarrow> RenderConfig \<Rightarrow> string" where
  "pdfToMarkdownWithCache L b fileCache articlePath config =
     templateToMarkdownWithCache L (PDFTemplate config) b fileCache articlePath"

definition videoToMarkdownWithCache ::
  "golib \<Rightarrow> media \<Rightarrow> FileCache option \<Rightarrow> string \<Rightarrow> RenderConfig \<Rightarrow> string" where
  "videoToMarkdownWithCache L b fileCache articlePath config =
     templateToMarkdownWithCache L (VideoTemplate config) b fileCache articlePath"

definition blockToMarkdownWithCache ::
  "golib \<Rightarrow> block \<Rightarrow> string \<Rightarrow> (string \<Rightarrow> string) option \<Rightarrow> FileCache option \<Rightarrow> string \<Rightarrow>
   RenderConfig \<Rightarrow> string \<times> bool" where
  "blockToMarkdownWithCache L blk childContent resolve fileCache articlePath config =
     (case Data blk of
        ParagraphBlock rt \<Rightarrow> (richTextArrToMarkdown L rt resolve, False)
      | Heading1Block rt \<Rightarrow> (''# '' @ richTextArrToMarkdown L rt resolve, False)
      | Heading2Block rt \<Rightarrow> (''## '' @ richTextArrToMarkdown L rt resolve, False)
      | Heading3Block rt \<Rightarrow> (''### '' @ richTextArrToMarkdown L rt resolve, False)
      | BulletedListItemBlock rt \<Rightarrow>
          (renderListItemWithChild (''- '' @ richTextArrToMarkdown L rt resolve) childContent, True)
      | NumberedListItemBlock rt \<Rightarrow>
          (renderListItemWithChild (''1. '' @ richTextArrToMarkdown L rt resolve) childContent, True)
      | ToDoBlock rt checked \<Rightarrow> (toDoToMarkdown L rt checked childContent resolve, True)
      | ToggleBlock rt \<Rightarrow> (toggleToMarkdown L rt childContent resolve config, False)
      | EquationBlock expression \<Rightarrow> (equationToMarkdown expression config, False)
      | CodeBlock rt language \<Rightarrow>
          (''```'' @ language @ nl @ richTextArrToMarkdown L rt resolve @ nl @ ''```'', False)
      | QuoteBlock rt \<Rightarrow> (''> '' @ richTextArrToMarkdown L rt resolve, False)
      | CalloutBlock rt \<Rightarrow> (calloutToMarkdown L rt childContent resolve config, False)
      | DividerBlock \<Rightarrow> (''---'', False)
      | ImageBlock b \<Rightarrow> (imageToMarkdownWithCache L b fileCache articlePath, False)
      | BookmarkBlock u caption \<Rightarrow> (renderLinkWithCaption L u caption, False)
      | EmbedBlock u caption \<Rightarrow> (embedToMarkdown L u caption config, False)
      | LinkPreviewBlock u \<Rightarrow> (linkPreviewToMarkdown L u, False)
      | FileBlock b \<Rightarrow> (fileToMarkdownWithCache L b fileCache articlePath config, False)
      | PdfBlock b \<Rightarrow> (pdfToMarkdownWithCache L b fileCache articlePath config, False)
      | VideoBlock b \<Rightarrow> (videoToMarkdownWithCache L b fileCache articlePath config, False)
      | TableBlock hasColumnHeader \<Rightarrow> (tableToMarkdown hasColumnHeader childContent, False)
      | TableRowBlock cells \<Rightarrow> (tableRowToMarkdown L cells resolve, False)
      | ColumnListBlock \<Rightarrow> (columnListToMarkdown childContent, False)
      | ColumnBlock \<Rightarrow> (dedentChildContent childContent, False)
      | UnsupportedBlock \<Rightarrow> ([], False))"

section \<open>Page renderer\<close>

record Renderer =
  rd_resolve :: "(string \<Rightarrow> string) option"
  rd_fileCache :: "FileCache option"
  rd_config :: RenderConfig

text \<open>
  \<open>filepath.Join\<close> drops empty elements, joins the others with the separator and cleans
  the result.  The elements joined here are slugs and \<open>index.md\<close>, which hold neither a
  separator nor a dot element, so cleaning changes nothing.
\<close>

definition join_elems :: "string list \<Rightarrow> string" where
  "join_elems elems = Join (filter (\<lambda>e. e \<noteq> []) elems) ''/''"

definition buildFilename :: "metadata \<Rightarrow> string" where
  "buildFilename m =
     (let safeType = slugify (pathType m) in
      if safeType = [] then join_elems [''posts'', Slug m, ''index.md'']
      else if safeType = ''pages'' then join_elems [Slug m, ''index.md'']
      else join_elems [safeType, Slug m, ''index.md''])"

definition buildFrontMatter :: "golib \<Rightarrow> metadata \<Rightarrow> error + string" where
  "buildFrontMatter L m =
     (case yaml_Marshal L (Properties m) of
        Inl err \<Rightarrow> Inl err
      | Inr out \<Rightarrow> Inr (''---'' @ nl @ out @ ''---'' @ nl @ nl))"

definition getBlockIDAndHasChildren :: "block \<Rightarrow> string \<times> bool" where
  "getBlockIDAndHasChildren blk =
     (case Data blk of
        ParagraphBlock _ \<Rightarrow> (ID blk, HasChildren blk)
      | Heading1Block _ \<Rightarrow> (ID blk, HasChildren blk)
      | Heading2Block _ \<Rightarrow> (ID blk, HasChildren blk)
      | Heading3Block _ \<Rightarrow> (ID blk, HasChildren blk)
      | BulletedListItemBlock _ \<Rightarrow> (ID blk, HasChildren blk)
      | NumberedListItemBlock _ \<Rightarrow> (ID blk, HasChildren blk)
      | ToDoBlock _ _ \<Rightarrow> (ID blk, HasChildren blk)
      | ToggleBlock _ \<Rightarrow> (ID blk, HasChildren blk)
      | EquationBlock _ \<Rightarrow> (ID blk, HasChildren blk)
      | CodeBlock _ _ \<Rightarrow> (ID blk, HasChildren blk)
      | QuoteBlock _ \<Rightarrow> (ID blk, HasChildren blk)
      | CalloutBlock _ \<Rightarrow> (ID blk, HasChildren blk)
      | DividerBlock \<Rightarrow> (ID blk, HasChildren blk)
      | ImageBlock _ \<Rightarrow> (ID blk, HasChildren blk)
      | BookmarkBlock _ _ \<Rightarrow> (ID blk, HasChildren blk)
      | EmbedBlock _ _ \<Rightarrow> (ID blk, HasChildren blk)
      | FileBlock _ \<Rightarrow> (ID blk, HasChildren blk)
      | VideoBlock _ \<Rightarrow> (ID blk, HasChildren blk)
      | TableBlock _ \<Rightarrow> (ID blk, HasChildren blk)
      | TableRowBlock _ \<Rightarrow> (ID blk, HasChildren blk)
      | ColumnListBlock \<Rightarrow> (ID blk, HasChildren blk)
      | ColumnBlock \<Rightarrow> (ID blk, HasChildren blk)
      | _ \<Rightarrow> ([], False))"

text \<open>
  \<open>renderBlock\<close> is a closure inside \<open>renderBlocksRecursive\<close>; the record holds the
  variables it captures.  \<open>cl_getChildren\<close> is \<open>None\<close> for a \<open>nil\<close> callback; the callback
  answers with the children of a block or with an error.
\<close>

record closure =
  cl_lib :: golib
  cl_getChildren :: "(string \<Rightarrow> error + block list) option"
  cl_resolve :: "(string \<Rightarrow> string) option"
  cl_fileCache :: "FileCache option"
  cl_articlePath :: string
  cl_config :: RenderConfig

definition child_indent :: "block \<Rightarrow> string" where
  "child_indent blk =
     (case Data blk of
        BulletedListItemBlock _ \<Rightarrow> replicate 4 CHR '' ''
      | NumberedListItemBlock _ \<Rightarrow> replicate 4 CHR '' ''
      | ToDoBlock _ _ \<Rightarrow> replicate 4 CHR '' ''
      | _ \<Rightarrow> [])"

definition isColumnList :: "block \<Rightarrow> bool" where
  "isColumnList blk = (case Data blk of ColumnListBlock \<Rightarrow> True | _ \<Rightarrow> False)"

text \<open>
  The body of the loop over the children, after the child itself has been rendered to
  \<open>cstr\<close> and \<open>childIsList\<close>: the new values of \<open>childContent\<close> and \<open>prevChildIsList\<close>.
\<close>

definition child_rendered :: "block \<Rightarrow> string \<Rightarrow> string" where
  "child_rendered blk cstr =
     (let indent = child_indent blk;
          lines = Split (TrimRight cstr nl) nl;
          lines = map (\<lambda>l. if TrimSpace l = [] then l else indent @ l) lines
      in Join lines nl)"

definition append_child :: "block \<Rightarrow> string \<Rightarrow> bool \<Rightarrow> string \<Rightarrow> bool \<Rightarrow> string \<times> bool" where
  "append_child blk childContent prevChildIsList cstr childIsList =
     (let rendered = child_rendered blk cstr;
          sep = (if prevChildIsList \<and> childIsList then nl else nl @ nl);
          childContent = (if childContent = [] then rendered else childContent @ sep @ rendered);
          childContent = (if isColumnList blk then childContent @ nl @ ''__COLUMN_BREAK__'' @ nl
                          else childContent)
      in (childContent, childIsList))"

definition finish_block :: "closure \<Rightarrow> block \<Rightarrow> string \<Rightarrow> string \<times> bool" where
  "finish_block E blk childContent =
     (let (s, isList) =
            blockToMarkdownWithCache (cl_lib E) blk childContent (cl_resolve E) (cl_fileCache E)
              (cl_articlePath E) (cl_config E)
      in (TrimRight s nl, isList))"

text \<open>
  The recursion follows the answers of the callback, so nothing bounds its depth: the
  first argument is fuel, one unit per level of nesting, and \<open>None\<close> means that the fuel
  ran out.  A result comes with the identifiers passed to the callback, in order.
\<close>

fun renderBlock ::
    "nat \<Rightarrow> closure \<Rightarrow> block \<Rightarrow> ((error + string \<times> bool) \<times> string list) option"
  and renderChildren ::
    "nat \<Rightarrow> closure \<Rightarrow> block \<Rightarrow> block list \<Rightarrow> string \<Rightarrow> bool \<Rightarrow>
     ((error + string) \<times> string list) option"
  where
    "renderBlock 0 E blk = None"
  | "renderBlock (Suc n) E blk =
       (let (id, has) = getBlockIDAndHasChildren blk in
        case (if has then cl_getChildren E else None) of
          Some getChildren \<Rightarrow>
            (case getChildren id of
               Inl err \<Rightarrow> Some (Inl err, [id])
             | Inr children \<Rightarrow>
                 (case renderChildren n E blk children [] False of
                    None \<Rightarrow> None
                  | Some (Inl err, calls) \<Rightarrow> Some (Inl err, id # calls)
                  | Some (Inr childContent, calls) \<Rightarrow>
                      Some (Inr (finish_block E blk (TrimRight childContent nl)), id # calls)))
        | None \<Rightarrow> Some (Inr (finish_block E blk []), []))"
  | "renderChildren n E blk [] childContent prevChildIsList = Some (Inr childContent, [])"
  | "renderChildren n E blk (cb # cbs) childContent prevChildIsList =
       (case renderBlock n E cb of
          None \<Rightarrow> None
        | Some (Inl err, calls) \<Rightarrow> Some (Inl err, calls)
        | Some (Inr (cstr, childIsList), calls) \<Rightarrow>
            (let (childContent, prevChildIsList) =
                   append_child blk childContent prevChildIsList cstr childIsList
             in
             case renderChildren n E blk cbs childContent prevChildIsList of
               None \<Rightarrow> None
             | Some (res, calls') \<Rightarrow> Some (res, calls @ calls')))"

text \<open>The loop of \<open>renderBlocksRecursive\<close> over the top-level blocks.\<close>

definition append_top :: "string \<Rightarrow> bool \<Rightarrow> string \<Rightarrow> bool \<Rightarrow> string \<times> bool" where
  "append_top markdown prevIsList s isList =
     (let markdown =
            (if markdown \<noteq> [] then
               (if prevIsList \<and> isList then markdown @ nl else markdown @ nl @ nl)
             else markdown);
          markdown = markdown @ s
      in (markdown, isList))"

fun renderTop ::
  "nat \<Rightarrow> closure \<Rightarrow> block list \<Rightarrow> string \<Rightarrow> bool \<Rightarrow> ((error + string) \<times> string list) option"
  where
    "renderTop n E [] markdown prevIsList = Some (Inr markdown, [])"
  | "renderTop n E (blk # blocks) markdown prevIsList =
       (case renderBlock n E blk of
          None \<Rightarrow> None
        | Some (Inl err, calls) \<Rightarrow> Some (Inl err, calls)
        | Some (Inr (s, isList), calls) \<Rightarrow>
            (let (markdown, prevIsList) = append_top markdown prevIsList s isList in
             case renderTop n E blocks markdown prevIsList of
               None \<Rightarrow> None
             | Some (res, calls') \<Rightarrow> Some (res, calls @ calls')))"

definition renderBlocksRecursive ::
  "nat \<Rightarrow> golib \<Rightarrow> Renderer \<Rightarrow> block list \<Rightarrow> (string \<Rightarrow> error + block list) option \<Rightarrow>
   (string \<Rightarrow> string) option \<Rightarrow> string \<Rightarrow> ((error + string) \<times> string list) option" where
  "renderBlocksRecursive n L r blocks getChildren resolve articlePath =
     renderTop n
       \<lparr>cl_lib = L, cl_getChildren = getChildren, cl_resolve = resolve,
        cl_fileCache = rd_fileCache r, cl_articlePath = articlePath, cl_config = rd_config r\<rparr>
       blocks [] False"

definition RenderPage ::
  "nat \<Rightarrow> golib \<Rightarrow> Renderer \<Rightarrow> page \<Rightarrow> block list \<Rightarrow> (string \<Rightarrow> error + block list) option \<Rightarrow>
   (string \<Rightarrow> string) option \<Rightarrow> ((error + string \<times> string) \<times> string list) option" where
  "RenderPage n L r pg blocks getChildren resolve =
     (let meta = parseMetadata pg;
          filename = buildFilename meta;
          resolve = (if resolve = None then rd_resolve r else resolve)
      in
      case renderBlocksRecursive n L r blocks getChildren resolve filename of
        None \<Rightarrow> None
      | Some (Inl err, calls) \<Rightarrow> Some (Inl err, calls)
      | Some (Inr body, calls) \<Rightarrow>
          (case buildFrontMatter L meta of
             Inl err \<Rightarrow> Some (Inl err, calls)
           | Inr fm \<Rightarrow> Some (Inr (filename, fm @ body), calls)))"

section \<open>Notions used by the claims\<close>

text \<open>
  The spec's ``list-like'' blocks: bulleted list items, numbered list items and to-do
  items.
\<close>

definition list_like :: "block \<Rightarrow> bool" where
  "list_like blk =
     (case Data blk of
        BulletedListItemBlock _ \<Rightarrow> True
      | NumberedListItemBlock _ \<Rightarrow> True
      | ToDoBlock _ _ \<Rightarrow> True
      | _ \<Rightarrow> False)"

text \<open>
  The part of a page's block tree that the renderer walks, described by the answers of
  the callback.  A block \<open>fetches\<close> when the renderer asks the callback for its children.
  \<open>fetch_ok gc blk\<close>: every fetch at and below \<open>blk\<close> succeeds.  \<open>fetch_fails gc blk err\<close>:
  walking \<open>blk\<close> depth-first, the callback answers \<open>err\<close> for \<open>blk\<close> or for a block below
  it, and every fetch before that one succeeds.
\<close>

definition fetches :: "block \<Rightarrow> bool" where
  "fetches blk = snd (getBlockIDAndHasChildren blk)"

inductive fetch_ok :: "(string \<Rightarrow> error + block list) \<Rightarrow> block \<Rightarrow> bool"
  for gc :: "string \<Rightarrow> error + block list" where
    leaf: "\<not> fetches blk \<Longrightarrow> fetch_ok gc blk"
  | node: "fetches blk \<Longrightarrow> gc (fst (getBlockIDAndHasChildren blk)) = Inr children \<Longrightarrow>
           \<forall>c\<in>set children. fetch_ok gc c \<Longrightarrow> fetch_ok gc blk"

code_pred fetch_ok .

inductive fetch_fails :: "(string \<Rightarrow> error + block list) \<Rightarrow> block \<Rightarrow> error \<Rightarrow> bool"
  for gc :: "string \<Rightarrow> error + block list" where
    here: "fetches blk \<Longrightarrow> gc (fst (getBlockIDAndHasChildren blk)) = Inl err \<Longrightarrow>
           fetch_fails gc blk err"
  | below: "fetches blk \<Longrightarrow> gc (fst (getBlockIDAndHasChildren blk)) = Inr (pre @ c # post) \<Longrightarrow>
            \<forall>p\<in>set pre. fetch_ok gc p \<Longrightarrow> fetch_fails gc c err \<Longrightarrow> fetch_fails gc blk err"

code_pred fetch_fails .

text \<open>
  \<open>walk_ok E blk\<close>: with the callback of the closure \<open>E\<close>, every fetch at and below
  \<open>blk\<close> succeeds; without a callback nothing is fetched.
\<close>

definition walk_ok :: "closure \<Rightarrow> block \<Rightarrow> bool" where
  "walk_ok E blk = (case cl_getChildren E of None \<Rightarrow> True | Some gc \<Rightarrow> fetch_ok gc blk)"

section \<open>Example inputs\<close>

text \<open>
  Concrete values at which the theorems below are evaluated.  \<open>ex_lib\<close> gives
  \<open>url.Parse\<close> on the URLs of the examples and nothing else.
\<close>

definition ex_url :: "string \<Rightarrow> url option" where
  "ex_url s =
     (if s = ''https://example.com/a'' then
        Some \<lparr>Scheme = ''https'', Host = ''example.com'', Path = ''/a'', RawQuery = []\<rparr>
      else None)"

definition ex_lib :: golib where
  "ex_lib =
     \<lparr>url_Parse = ex_url,
      sha256_hex = (\<lambda>s. []),
      yaml_Marshal = (\<lambda>m. Inr []),
      filepath_Dir = (\<lambda>p. p),
      filepath_Join = (\<lambda>a b. a @ ''/'' @ b)\<rparr>"

definition plain :: annotations where
  "plain = \<lparr>Bold = False, Italic = False, Strikethrough = False, Underline = False, Code = False\<rparr>"

definition span_all_four :: rich_text where
  "span_all_four =
     \<lparr>PlainText = ''x'', Href = [],
      Annotations = \<lparr>Bold = True, Italic = True, Strikethrough = True, Underline = True,
                     Code = False\<rparr>\<rparr>"

definition span_brackets :: rich_text where
  "span_brackets = \<lparr>PlainText = ''a[b]'', Href = [], Annotations = plain\<rparr>"

definition span_code_link :: rich_text where
  "span_code_link =
     \<lparr>PlainText = ''a[b]'', Href = ''https://example.com/a'',
      Annotations = plain\<lparr>Code := True\<rparr>\<rparr>"

definition page_guides :: page where
  "page_guides =
     \<lparr>CreatedTime = Some ''2025-01-15T10:00:00Z'',
      LastEditedTime = Some ''2025-01-15T10:00:00Z'',
      PageProperties =
        [(''Title'', TitleProperty [\<lparr>PlainText = ''User Guide'', Href = [], Annotations = plain\<rparr>]),
         (''Type'', SelectProperty ''docs:guides'')]\<rparr>"

definition page_friends :: page where
  "page_friends =
     \<lparr>CreatedTime = Some ''2025-01-15T10:00:00Z'',
      LastEditedTime = Some ''2025-01-15T10:00:00Z'',
      PageProperties =
        [(''Type'', SelectProperty ''pages:friends''),
         (''Title'', TitleProperty [\<lparr>PlainText = ''My Friends'', Href = [], Annotations = plain\<rparr>])]\<rparr>"

definition ex_notion_url :: "string \<Rightarrow> url option" where
  "ex_notion_url s =
     (if s = ''https://www.notion.so/01234567-89ab-cdef-0123-456789abcdef'' then
        Some \<lparr>Scheme = ''https'', Host = ''www.notion.so'',
              Path = ''/01234567-89ab-cdef-0123-456789abcdef'', RawQuery = []\<rparr>
      else if s = ''https://www.notion.so/ws/My-Page-0123456789ABCDEF0123456789abcdef'' then
        Some \<lparr>Scheme = ''https'', Host = ''www.notion.so'',
              Path = ''/ws/My-Page-0123456789ABCDEF0123456789abcdef'', RawQuery = []\<rparr>
      else None)"

definition ex_notion_lib :: golib where
  "ex_notion_lib = ex_lib\<lparr>url_Parse := ex_notion_url\<rparr>"

definition url_signed_pdf :: string where
  "url_signed_pdf =
     ''https://s3.us-west-2.amazonaws.com/secure.notion-static.com/abc123/LICENSE'' @
     ''?X-Amz-Date=20230101T000000Z&X-Amz-Security-Token=AQoDpdfQ''"

definition url_signed_xyz :: string where
  "url_signed_xyz =
     ''https://s3.us-west-2.amazonaws.com/secure.notion-static.com/abc123/LICENSE'' @
     ''?X-Amz-Date=20230102T000000Z&X-Amz-Security-Token=AQoDxyzQ''"

definition url_signed_image :: string where
  "url_signed_image =
     ''https://s3.us-west-2.amazonaws.com/secure.notion-static.com/abc123/image.jpg'' @
     ''?X-Amz-Date=20230101T000000Z''"

definition ex_s3_url :: "string \<Rightarrow> url option" where
  "ex_s3_url s =
     (if s = url_signed_pdf then
        Some \<lparr>Scheme = ''https'', Host = ''s3.us-west-2.amazonaws.com'',
              Path = ''/secure.notion-static.com/abc123/LICENSE'',
              RawQuery = ''X-Amz-Date=20230101T000000Z&X-Amz-Security-Token=AQoDpdfQ''\<rparr>
      else if s = url_signed_xyz then
        Some \<lparr>Scheme = ''https'', Host = ''s3.us-west-2.amazonaws.com'',
              Path = ''/secure.notion-static.com/abc123/LICENSE'',
              RawQuery = ''X-Amz-Date=20230102T000000Z&X-Amz-Security-Token=AQoDxyzQ''\<rparr>
      else if s = url_signed_image then
        Some \<lparr>Scheme = ''https'', Host = ''s3.us-west-2.amazonaws.com'',
              Path = ''/secure.notion-static.com/abc123/image.jpg'',
              RawQuery = ''X-Amz-Date=20230101T000000Z''\<rparr>
      else None)"

definition ex_s3_lib :: "(string \<Rightarrow> string) \<Rightarrow> golib" where
  "ex_s3_lib h = ex_lib\<lparr>url_Parse := ex_s3_url, sha256_hex := h\<rparr>"



definition failing_getChildren :: "string \<Rightarrow> error + block list" where
  "failing_getChildren blockID = Inl (Err ''transport error'')"

definition ex_closure :: closure where
  "ex_closure =
     \<lparr>cl_lib = ex_lib, cl_getChildren = Some failing_getChildren, cl_resolve = None,
      cl_fileCache = None, cl_articlePath = ''posts/p/index.md'',
      cl_config = DefaultRenderConfig\<rparr>"

definition ex_pdf_block :: block where
  "ex_pdf_block =
     \<lparr>ID = ''b1'', HasChildren = True,
      Data = PdfBlock \<lparr>File = None, External = Some ''https://example.com/a'', Caption = []\<rparr>\<rparr>"

definition ex_link_preview_block :: block where
  "ex_link_preview_block =
     \<lparr>ID = ''b2'', HasChildren = True, Data = LinkPreviewBlock ''https://example.com/a''\<rparr>"

definition plain_text :: "string \<Rightarrow> rich_text list" where
  "plain_text s = [\<lparr>PlainText = s, Href = [], Annotations = plain\<rparr>]"

definition ex_para :: block where
  "ex_para = \<lparr>ID = ''p'', HasChildren = False, Data = ParagraphBlock (plain_text ''Intro'')\<rparr>"

definition ex_bullet_a :: block where
  "ex_bullet_a = \<lparr>ID = ''a'', HasChildren = False, Data = BulletedListItemBlock (plain_text ''a'')\<rparr>"

definition ex_bullet_b :: block where
  "ex_bullet_b = \<lparr>ID = ''b'', HasChildren = False, Data = BulletedListItemBlock (plain_text ''b'')\<rparr>"

definition ex_column_list :: block where
  "ex_column_list = \<lparr>ID = ''cl'', HasChildren = True, Data = ColumnListBlock\<rparr>"

definition ex_parent_item :: block where
  "ex_parent_item = \<lparr>ID = ''n'', HasChildren = True, Data = NumberedListItemBlock (plain_text ''parent'')\<rparr>"

definition ex_toggle :: block where
  "ex_toggle = \<lparr>ID = ''t'', HasChildren = True, Data = ToggleBlock (plain_text ''more'')\<rparr>"

definition ex_getChildren :: "string \<Rightarrow> error + block list" where
  "ex_getChildren blockID =
     (if blockID = ''cl'' then Inr [ex_bullet_a, ex_bullet_b]
      else if blockID = ''n'' then Inr [ex_para, ex_toggle, ex_bullet_a]
      else if blockID = ''t'' then Inl (Err ''transport error'')
      else Inr [])"

definition ex_tree_closure :: closure where
  "ex_tree_closure = ex_closure\<lparr>cl_getChildren := Some ex_getChildren\<rparr>"

definition ex_renderer :: Renderer where
  "ex_renderer = \<lparr>rd_resolve = None, rd_fileCache = None, rd_config = DefaultRenderConfig\<rparr>"

definition ex_table_header_row :: block where
  "ex_table_header_row =
     \<lparr>ID = ''r1'', HasChildren = False,
      Data = TableRowBlock [[], plain_text ''Q1'', plain_text ''Q2'']\<rparr>"

definition ex_table_data_row :: block where
  "ex_table_data_row =
     \<lparr>ID = ''r2'', HasChildren = False,
      Data = TableRowBlock [plain_text ''a'', plain_text ''b'']\<rparr>"

definition ex_table :: block where
  "ex_table = \<lparr>ID = ''tbl'', HasChildren = True, Data = TableBlock True\<rparr>"

definition ex_table_swapped :: block where
  "ex_table_swapped = \<lparr>ID = ''tbl2'', HasChildren = True, Data = TableBlock True\<rparr>"

definition ex_table_getChildren :: "string \<Rightarrow> error + block list" where
  "ex_table_getChildren blockID =
     (if blockID = ''tbl'' then Inr [ex_table_header_row, ex_table_data_row]
      else if blockID = ''tbl2'' then Inr [ex_table_data_row, ex_table_header_row]
      else Inr [])"

definition ex_table_closure :: closure where
  "ex_table_closure = ex_closure\<lparr>cl_getChildren := Some ex_table_getChildren\<rparr>"

section \<open>Properties of the rich-text formatter\<close>

lemma replace_go_single:
  "replace_go [a] new 0 s = concat (map (\<lambda>c. if c = a then new else [c]) s)"
  by (induction s) (simp_all add: HasPrefix_def)

lemma ReplaceAll_single:
  "ReplaceAll s [a] new = concat (map (\<lambda>c. if c = a then new else [c]) s)"
  by (simp add: ReplaceAll_def replace_go_single)

lemma escapeMarkdown_chars:
  "escapeMarkdown s =
     concat (map (\<lambda>c. if c = CHR ''['' then bslash @ ''[''
                        else if c = CHR '']'' then bslash @ '']'' else [c]) s)"
  by (induction s) (simp_all add: escapeMarkdown_def ReplaceAll_single bslash_def)

lemma escapeBackticks_chars:
  "escapeBackticks s = concat (map (\<lambda>c. if c = CHR 0x60 then bslash @ ''`'' else [c]) s)"
  by (simp add: escapeBackticks_def ReplaceAll_single)

lemma richTextArr_single: "richTextArrToMarkdown L [t] r = richTextSpan L r t"
  by (simp add: richTextArrToMarkdown_def)

text \<open>
  C2, as the spec states it, fails: the wrappers are applied bold first and underline
  last, so bold ends up innermost and underline outermost.  A span with all four
  annotations renders with the underline tags outside and the bold markers next to the
  text.
\<close>

theorem C2_bold_outermost_counterexample:
  "richTextArrToMarkdown ex_lib [span_all_four] None = ''<u>~~***x***~~</u>'' \<and>
   richTextArrToMarkdown ex_lib [span_all_four] None \<noteq> ''***~~<u>x</u>~~***''"
  by (simp add: richTextArrToMarkdown_def span_all_four_def wrap_annotations_def)

text \<open>
  C2 (amended): for every rich-text span without the code annotation the wrappers nest in
  the fixed order underline, strikethrough, italic, bold from outermost to innermost; a
  span without link target renders as exactly that string, a span with a link target as
  the escaped string inside a Markdown link.  The result is a function of the span alone,
  so rendering it again gives the same string.
\<close>

theorem C2_annotation_nesting_order:
  "\<not> Code (Annotations t) \<Longrightarrow>
   richTextAnnotationsToMarkdown t =
     (if Underline (Annotations t) then ''<u>'' else []) @
     (if Strikethrough (Annotations t) then ''~~'' else []) @
     (if Italic (Annotations t) then ''*'' else []) @
     (if Bold (Annotations t) then ''**'' else []) @
     PlainText t @
     (if Bold (Annotations t) then ''**'' else []) @
     (if Italic (Annotations t) then ''*'' else []) @
     (if Strikethrough (Annotations t) then ''~~'' else []) @
     (if Underline (Annotations t) then ''</u>'' else []) \<and>
   richTextArrToMarkdown L [t] resolve =
     (if Href t = [] then richTextAnnotationsToMarkdown t
      else ''['' @ escapeMarkdown (richTextAnnotationsToMarkdown t) @ '']('' @
           notionURLToHugoLink L (Href t) resolve @ '')'')"
  by (simp add: richTextArr_single richTextAnnotationsToMarkdown_def wrap_annotations_def)

theorem C2_annotation_nesting_order_witness:
  "\<not> Code (Annotations span_all_four) \<and>
   richTextAnnotationsToMarkdown span_all_four = ''<u>~~***x***~~</u>'' \<and>
   richTextArrToMarkdown ex_lib [span_all_four] None = ''<u>~~***x***~~</u>''"
proof -
  have h: "\<not> Code (Annotations span_all_four)"
    by (simp add: span_all_four_def)
  from C2_annotation_nesting_order [OF h, of ex_lib None] h show ?thesis
    by (simp add: span_all_four_def)
qed

text \<open>
  C3, as the spec states it, fails twice: a span without link target keeps its brackets
  unescaped, and a code span that carries a link target has its brackets escaped.
\<close>

theorem C3_brackets_counterexample:
  "richTextArrToMarkdown ex_lib [span_brackets] None = ''a[b]'' \<and>
   richTextArrToMarkdown ex_lib [span_code_link] None =
     ''[`a'' @ bslash @ ''[b'' @ bslash @ '']`](https://example.com/a)''"
  by (simp add: richTextArrToMarkdown_def wrap_annotations_def
      richTextAnnotationsToMarkdown_def escapeMarkdown_def escapeBackticks_def
      ReplaceAll_def HasPrefix_def notionURLToHugoLink_def ex_lib_def ex_url_def bslash_def
      span_brackets_def span_code_link_def plain_def)

text \<open>
  C3 (amended): brackets are escaped in the text of links only.  For every span with a
  link target, every \<open>[\<close> and \<open>]\<close> of the wrapped text (also inside a code annotation) is
  preceded by a backslash; a span without link target is emitted with its brackets as
  they are.  For every span with the code annotation no other annotation wrapping is
  applied, and inside the back quotes only back quotes are escaped before the link
  escaping, if any.
\<close>

theorem C3_bracket_escaping:
  "richTextArrToMarkdown L [t] resolve =
     (if Href t \<noteq> [] then
        ''['' @ concat (map (\<lambda>c. if c = CHR ''['' then bslash @ ''[''
                                   else if c = CHR '']'' then bslash @ '']'' else [c])
                          (richTextAnnotationsToMarkdown t)) @
        '']('' @ notionURLToHugoLink L (Href t) resolve @ '')''
      else richTextAnnotationsToMarkdown t) \<and>
   richTextAnnotationsToMarkdown t =
     (if Code (Annotations t) then
        ''`'' @ concat (map (\<lambda>c. if c = CHR 0x60 then bslash @ ''`'' else [c]) (PlainText t)) @
        ''`''
      else wrap_annotations (Annotations t) (PlainText t))"
  by (simp add: richTextArr_single richTextAnnotationsToMarkdown_def
      escapeMarkdown_chars escapeBackticks_chars)

theorem C3_bracket_escaping_witness:
  "richTextArrToMarkdown ex_lib [span_code_link] None =
     ''[`a'' @ bslash @ ''[b'' @ bslash @ '']`]('' @
     notionURLToHugoLink ex_lib ''https://example.com/a'' None @ '')'' \<and>
   richTextArrToMarkdown ex_lib [span_brackets] None = ''a[b]''"
  using C3_bracket_escaping [of ex_lib span_code_link None]
    C3_bracket_escaping [of ex_lib span_brackets None]
  by (simp add: span_code_link_def span_brackets_def plain_def bslash_def
      wrap_annotations_def)

section \<open>Properties of the metadata builder\<close>

lemma ToLower_type_key: "ToLower k \<noteq> ''type'' \<Longrightarrow> k \<noteq> ''type''"
  by (auto simp: ToLower_def lower_char_def)

lemma parseProperty_other:
  assumes "ToLower (fst kp) \<noteq> ''type''"
  shows "pathType (parseProperty m kp) = pathType m \<and>
         Properties (parseProperty m kp) ''type'' = Properties m ''type''"
  using assms ToLower_type_key [OF assms]
  by (auto simp: parseProperty_def setProperty_def Let_def
      split: property.splits option.splits pvalue.splits)

lemma type_friends_strings:
  "Contains ''pages:friends'' '':''"
  "SplitN2 ''pages:friends'' '':'' = [''pages'', ''friends'']"
  "ToLower (TrimSpace ''pages'') = ''pages''"
  "TrimSpace ''friends'' = ''friends''"
  by code_simp+

lemma type_guides_strings:
  "Contains ''docs:guides'' '':''"
  "SplitN2 ''docs:guides'' '':'' = [''docs'', ''guides'']"
  "ToLower (TrimSpace ''docs'') = ''docs''"
  "ToLower ''docs:guides'' = ''docs:guides''"
  by code_simp+

lemma slugify_types:
  "slugify ''pages'' = ''pages''"
  "slugify ''docs:guides'' = ''docsguides''"
  by code_simp+

lemma parseProperty_friends:
  assumes "ToLower (fst kp) = ''type''"
      and "extractPropertyValue (snd kp) = Some (VStr ''pages:friends'')"
  shows "pathType (parseProperty m kp) = ''pages'' \<and>
         Properties (parseProperty m kp) ''type'' = Some (VStr ''friends'')"
  using assms
  by (simp add: parseProperty_def parseType_def setProperty_def Let_def type_friends_strings
      del: Contains.simps)

lemma parseProperty_guides:
  assumes "ToLower (fst kp) = ''type''"
      and "extractPropertyValue (snd kp) = Some (VStr ''docs:guides'')"
  shows "pathType (parseProperty m kp) = ''docs:guides'' \<and>
         Properties (parseProperty m kp) ''type'' = Some (VStr ''docs:guides'')"
  using assms
  by (simp add: parseProperty_def parseType_def setProperty_def Let_def type_guides_strings
      del: Contains.simps)

lemma fold_type_invariant:
  assumes step: "\<And>m kp. kp \<in> set xs \<Longrightarrow> ToLower (fst kp) = ''type'' \<Longrightarrow>
                   pathType (parseProperty m kp) = pt \<and>
                   Properties (parseProperty m kp) ''type'' = Some v"
      and start: "(pathType m0 = pt \<and> Properties m0 ''type'' = Some v) \<or>
                  (\<exists>kp\<in>set xs. ToLower (fst kp) = ''type'')"
  shows "pathType (foldl parseProperty m0 xs) = pt \<and>
         Properties (foldl parseProperty m0 xs) ''type'' = Some v"
  using assms
proof (induction xs arbitrary: m0)
  case Nil
  then show ?case by simp
next
  case (Cons kp xs)
  have st: "\<And>m kp'. kp' \<in> set xs \<Longrightarrow> ToLower (fst kp') = ''type'' \<Longrightarrow>
               pathType (parseProperty m kp') = pt \<and>
               Properties (parseProperty m kp') ''type'' = Some v"
    using Cons.prems(1) by simp
  show ?case
  proof (cases "ToLower (fst kp) = ''type''")
    case True
    then have "pathType (parseProperty m0 kp) = pt \<and>
               Properties (parseProperty m0 kp) ''type'' = Some v"
      using Cons.prems(1) by simp
    then show ?thesis using Cons.IH [OF st] by simp
  next
    case False
    from parseProperty_other [OF False, of m0] Cons.prems(2) False
    have "(pathType (parseProperty m0 kp) = pt \<and>
           Properties (parseProperty m0 kp) ''type'' = Some v) \<or>
          (\<exists>kp\<in>set xs. ToLower (fst kp) = ''type'')"
      by auto
    then show ?thesis using Cons.IH [OF st] by simp
  qed
qed

lemma parseMetadata_type:
  assumes "\<exists>kp\<in>set (PageProperties pg). ToLower (fst kp) = ''type''"
      and "\<And>m kp. kp \<in> set (PageProperties pg) \<Longrightarrow> ToLower (fst kp) = ''type'' \<Longrightarrow>
                   pathType (parseProperty m kp) = pt \<and>
                   Properties (parseProperty m kp) ''type'' = Some v"
      and "pt \<noteq> []"
  shows "pathType (parseMetadata pg) = pt \<and> Properties (parseMetadata pg) ''type'' = Some v"
proof -
  let ?m0 = "\<lparr>Title = ''untitled'', Slug = [], pathType = [], Properties = Map.empty\<rparr>"
  let ?m1 = "(case CreatedTime pg of Some t \<Rightarrow> setProperty ?m0 ''date'' (VStr t) | None \<Rightarrow> ?m0)"
  let ?m2 = "(case LastEditedTime pg of Some t \<Rightarrow> setProperty ?m1 ''lastmod'' (VStr t) | None \<Rightarrow> ?m1)"
  have "pathType (foldl parseProperty ?m2 (PageProperties pg)) = pt \<and>
        Properties (foldl parseProperty ?m2 (PageProperties pg)) ''type'' = Some v"
    by (rule fold_type_invariant) (use assms in auto)
  then show ?thesis using \<open>pt \<noteq> []\<close>
    by (simp add: parseMetadata_def Let_def)
qed

text \<open>
  C1, as the spec states it, fails in its last part: \<open>GetPagePath\<close> passes the
  classification through \<open>slugify\<close>, which drops the colon, so the page of type
  \<open>docs:guides\<close> titled ``User Guide'' is placed under \<open>/docsguides/\<close>.
\<close>

theorem C1_docs_guides_path_counterexample:
  "GetPagePath page_guides = ''/docsguides/user-guide/'' \<and>
   GetPagePath page_guides \<noteq> ''/docs:guides/user-guide/''"
  by code_simp

text \<open>
  C1 (amended): for every page whose \<open>type\<close> property is \<open>pages:friends\<close> the
  front-matter properties contain type \<open>friends\<close> and the derived output path is
  \<open>/{slug}/\<close>; for every page whose \<open>type\<close> property is \<open>docs:guides\<close> the front-matter
  properties contain type \<open>docs:guides\<close> verbatim and the derived output path is
  \<open>/docsguides/{slug}/\<close>: the classification is not split, but it is slugified, which
  removes the colon.  A page has the \<open>type\<close> property \<open>ty\<close> when some property name
  lower-cases to \<open>type\<close> and every such property has the string value \<open>ty\<close>.
\<close>

theorem C1_type_classification:
  assumes "\<exists>kp\<in>set (PageProperties pg). ToLower (fst kp) = ''type''"
      and "\<forall>kp\<in>set (PageProperties pg). ToLower (fst kp) = ''type'' \<longrightarrow>
             extractPropertyValue (snd kp) = Some (VStr ty)"
  shows "(ty = ''pages:friends'' \<longrightarrow>
            Properties (parseMetadata pg) ''type'' = Some (VStr ''friends'') \<and>
            GetPagePath pg = ''/'' @ Slug (parseMetadata pg) @ ''/'') \<and>
         (ty = ''docs:guides'' \<longrightarrow>
            Properties (parseMetadata pg) ''type'' = Some (VStr ''docs:guides'') \<and>
            GetPagePath pg = ''/docsguides/'' @ Slug (parseMetadata pg) @ ''/'')"
proof (intro conjI impI)
  assume ty: "ty = ''pages:friends''"
  have m: "pathType (parseMetadata pg) = ''pages'' \<and>
           Properties (parseMetadata pg) ''type'' = Some (VStr ''friends'')"
    by (rule parseMetadata_type [OF assms(1)]) (use assms(2) ty parseProperty_friends in auto)
  then show "Properties (parseMetadata pg) ''type'' = Some (VStr ''friends'')" by simp
  from m show "GetPagePath pg = ''/'' @ Slug (parseMetadata pg) @ ''/''"
    by (simp add: GetPagePath_def Let_def slugify_types)
next
  assume ty: "ty = ''docs:guides''"
  have m: "pathType (parseMetadata pg) = ''docs:guides'' \<and>
           Properties (parseMetadata pg) ''type'' = Some (VStr ''docs:guides'')"
    by (rule parseMetadata_type [OF assms(1)]) (use assms(2) ty parseProperty_guides in auto)
  then show "Properties (parseMetadata pg) ''type'' = Some (VStr ''docs:guides'')" by simp
  from m show "GetPagePath pg = ''/docsguides/'' @ Slug (parseMetadata pg) @ ''/''"
    by (simp add: GetPagePath_def Let_def slugify_types)
qed

lemma slug_examples:
  "Slug (parseMetadata page_guides) = ''user-guide''"
  "Slug (parseMetadata page_friends) = ''my-friends''"
  by code_simp+

theorem C1_type_classification_witness:
  "Properties (parseMetadata page_friends) ''type'' = Some (VStr ''friends'') \<and>
   GetPagePath page_friends = ''/my-friends/'' \<and>
   Properties (parseMetadata page_guides) ''type'' = Some (VStr ''docs:guides'') \<and>
   GetPagePath page_guides = ''/docsguides/user-guide/''"
proof -
  have f1: "\<exists>kp\<in>set (PageProperties page_friends). ToLower (fst kp) = ''type''"
    by code_simp
  have f2: "\<forall>kp\<in>set (PageProperties page_friends). ToLower (fst kp) = ''type'' \<longrightarrow>
             extractPropertyValue (snd kp) = Some (VStr ''pages:friends'')"
    by code_simp
  have g1: "\<exists>kp\<in>set (PageProperties page_guides). ToLower (fst kp) = ''type''"
    by code_simp
  have g2: "\<forall>kp\<in>set (PageProperties page_guides). ToLower (fst kp) = ''type'' \<longrightarrow>
             extractPropertyValue (snd kp) = Some (VStr ''docs:guides'')"
    by code_simp
  from C1_type_classification [OF f1 f2] C1_type_classification [OF g1 g2] slug_examples show ?thesis by simp
qed

section \<open>Properties of link resolution\<close>

lemma HasSuffix_append: "HasSuffix (t @ s) s"
  by (simp add: HasSuffix_def)

lemma TrimSuffix_append: "TrimSuffix (t @ s) s = t"
  by (simp add: TrimSuffix_def HasSuffix_def)

lemma HasSuffix_iff: "HasSuffix s p \<longleftrightarrow> (\<exists>t. s = t @ p)"
proof
  assume "HasSuffix s p"
  then have "s = take (length s - length p) s @ p"
    by (metis HasSuffix_def append_take_drop_id)
  then show "\<exists>t. s = t @ p" ..
next
  assume "\<exists>t. s = t @ p"
  then show "HasSuffix s p" by (auto simp: HasSuffix_def)
qed

lemma TrimSuffix_dash_ident:
  "(let tp = TrimSuffix (t @ ident) (''-'' @ ident)
    in if tp = t @ ident then TrimSuffix (t @ ident) ident else tp) = TrimSuffix t ''-''"
proof (cases "HasSuffix t ''-''")
  case True
  then obtain t' where t: "t = t' @ ''-''" by (auto simp: HasSuffix_iff)
  have "TrimSuffix (t @ ident) (''-'' @ ident) = t'"
    using TrimSuffix_append [of t' "''-'' @ ident"] by (simp add: t)
  moreover have "TrimSuffix t ''-'' = t'"
    using TrimSuffix_append [of t' "''-''"] by (simp add: t)
  ultimately show ?thesis by (simp add: t Let_def)
next
  case False
  then have "\<not> HasSuffix (t @ ident) (''-'' @ ident)"
    by (auto simp: HasSuffix_iff)
  then show ?thesis using False
    by (simp add: TrimSuffix_def HasSuffix_append Let_def)
qed

lemma hex_not_dash: "is_hex c \<Longrightarrow> c \<noteq> CHR ''-''"
  by (auto simp: is_hex_def)

lemma reDashed_hex32:
  assumes "length ident = 32" "list_all is_hex ident"
  shows "reDashed (t @ ident) = None"
proof -
  let ?s = "t @ ident"
  let ?m = "drop (length ?s - 36) ?s"
  have "\<not> is_dashed_uuid ?m" if len: "36 \<le> length ?s"
  proof
    assume d: "is_dashed_uuid ?m"
    have "drop 23 ?m = drop 19 ident"
      using len assms(1) by simp
    moreover have "take 1 (drop 23 ?m) = ''-''"
      using d by (simp add: is_dashed_uuid_def)
    ultimately have "take 1 (drop 19 ident) = ''-''" by simp
    then have "hd (take 1 (drop 19 ident)) = CHR ''-''" by simp
    then have "ident ! 19 = CHR ''-''"
      using assms(1) by (simp add: hd_drop_conv_nth)
    moreover have "is_hex (ident ! 19)"
      using assms by (simp add: list_all_length)
    ultimately show False using hex_not_dash by blast
  qed
  then show ?thesis by (auto simp: reDashed_def Let_def)
qed


lemma reNoDash_hex32:
  assumes "length ident = 32" "list_all is_hex ident"
  shows "reNoDash (t @ ident) = Some ident"
  using assms by (simp add: reNoDash_def Let_def)

lemma reDashed_dashed:
  assumes "is_dashed_uuid ident"
  shows "reDashed (t @ ident) = Some ident"
proof -
  have "length ident = 36" using assms by (simp add: is_dashed_uuid_def)
  then show ?thesis using assms by (simp add: reDashed_def Let_def)
qed

lemma set_split_at: "set xs = set (take n xs) \<union> set (drop n xs)"
  by (metis append_take_drop_id set_append)

lemma dashed_uuid_chars:
  assumes "is_dashed_uuid s" "c \<in> set s"
  shows "is_hex c \<or> c = CHR ''-''"
proof -
  have u: "set s = set (take 8 s) \<union> set (take 1 (drop 8 s)) \<union> set (take 4 (drop 9 s)) \<union>
        set (take 1 (drop 13 s)) \<union> set (take 4 (drop 14 s)) \<union> set (take 1 (drop 18 s)) \<union>
        set (take 4 (drop 19 s)) \<union> set (take 1 (drop 23 s)) \<union> set (drop 24 s)"
    using set_split_at [of s 8] set_split_at [of "drop 8 s" 1] set_split_at [of "drop 9 s" 4]
      set_split_at [of "drop 13 s" 1] set_split_at [of "drop 14 s" 4]
      set_split_at [of "drop 18 s" 1] set_split_at [of "drop 19 s" 4]
      set_split_at [of "drop 23 s" 1]
    by (simp add: Un_assoc)
  have d: "set (take 1 (drop 8 s)) = {CHR ''-''}" "set (take 1 (drop 13 s)) = {CHR ''-''}"
    "set (take 1 (drop 18 s)) = {CHR ''-''}" "set (take 1 (drop 23 s)) = {CHR ''-''}"
    using assms(1) unfolding is_dashed_uuid_def by simp_all
  have h: "\<forall>x\<in>set (take 8 s). is_hex x" "\<forall>x\<in>set (take 4 (drop 9 s)). is_hex x"
    "\<forall>x\<in>set (take 4 (drop 14 s)). is_hex x" "\<forall>x\<in>set (take 4 (drop 19 s)). is_hex x"
    "\<forall>x\<in>set (drop 24 s). is_hex x"
    using assms(1) unfolding is_dashed_uuid_def list_all_iff by blast+
  from assms(2) have "c \<in> set (take 8 s) \<union> set (take 1 (drop 8 s)) \<union> set (take 4 (drop 9 s)) \<union>
        set (take 1 (drop 13 s)) \<union> set (take 4 (drop 14 s)) \<union> set (take 1 (drop 18 s)) \<union>
        set (take 4 (drop 19 s)) \<union> set (take 1 (drop 23 s)) \<union> set (drop 24 s)"
    using u by simp
  then show ?thesis unfolding d using h by blast
qed

lemma ident_chars_table:
  "list_all (\<lambda>c. slug_safe (lower_char c) \<and> lower_char c \<noteq> CHR '' '' \<and>
                  (c = CHR ''-'' \<longrightarrow> lower_char c = CHR ''-''))
     ''0123456789abcdefABCDEF-''"
  by code_simp

lemma ident_char_lower:
  assumes "is_hex c \<or> c = CHR ''-''"
  shows "slug_safe (lower_char c) \<and> lower_char c \<noteq> CHR '' '' \<and>
         (c = CHR ''-'' \<longrightarrow> lower_char c = CHR ''-'')"
proof -
  from assms have "c \<in> set ''0123456789abcdefABCDEF-''"
    by (auto simp: is_hex_def)
  with ident_chars_table show ?thesis
    unfolding list_all_iff by blast
qed

lemma lower_char_space: "lower_char CHR '' '' = CHR '' ''" "slug_safe CHR ''-''"
  by code_simp+

lemma slugify_ident:
  assumes "\<forall>c\<in>set s. is_hex c \<or> c = CHR ''-''"
  shows "slugify (ReplaceAll s ''-'' '' '') = ToLower s"
  using assms
proof (induction s)
  case Nil
  then show ?case by (simp add: slugify_def ReplaceAll_single ToLower_def)
next
  case (Cons c s)
  then have ih: "filter slug_safe (concat (map (\<lambda>c. if c = CHR '' '' then ''-'' else [c])
       (map lower_char (concat (map (\<lambda>c. if c = CHR ''-'' then '' '' else [c]) s))))) =
       map lower_char s"
    by (simp add: slugify_def ReplaceAll_single ToLower_def)
  from Cons.prems have c: "is_hex c \<or> c = CHR ''-''" by simp
  show ?case
  proof (cases "c = CHR ''-''")
    case True
    then show ?thesis using ih ident_char_lower [OF c]
      by (simp add: slugify_def ReplaceAll_single ToLower_def lower_char_space)
  next
    case False
    then show ?thesis using ih ident_char_lower [OF c]
      by (simp add: slugify_def ReplaceAll_single ToLower_def)
  qed
qed

text \<open>
  C9, as the spec states it, fails when no title fragment remains: the link is then built
  from the whole last segment, so a hyphenated identifier keeps its hyphens (and an
  upper-case one is lower-cased) instead of being replaced by the normalized identifier.
\<close>

theorem C9_bare_identifier_counterexample:
  "notionURLToHugoLink ex_notion_lib
     ''https://www.notion.so/01234567-89ab-cdef-0123-456789abcdef'' (Some (\<lambda>pageID. [])) =
     ''/posts/01234567-89ab-cdef-0123-456789abcdef/'' \<and>
   notionURLToHugoLink ex_notion_lib
     ''https://www.notion.so/01234567-89ab-cdef-0123-456789abcdef'' (Some (\<lambda>pageID. [])) \<noteq>
     ''/posts/0123456789abcdef0123456789abcdef/'' \<and>
   notionURLToHugoLink ex_notion_lib
     ''https://www.notion.so/01234567-89ab-cdef-0123-456789abcdef'' (Some (\<lambda>pageID. [])) \<noteq>
     ''0123456789abcdef0123456789abcdef''"
proof -
  have "notionURLToHugoLink ex_notion_lib
     ''https://www.notion.so/01234567-89ab-cdef-0123-456789abcdef'' (Some (\<lambda>pageID. [])) =
     ''/posts/01234567-89ab-cdef-0123-456789abcdef/''"
    by code_simp
  then show ?thesis by simp
qed

text \<open>
  C9 (amended): for every notion.so URL whose last path segment \<open>t @ ident\<close> ends in a
  recognizable identifier \<open>ident\<close> (32 hexadecimal characters, plain or hyphenated
  8-4-4-4-12), when the caller-supplied resolver returns the empty string for the
  normalized identifier, the resolved link is \<open>/posts/{slug}/\<close>.  The slug is the slugified
  title fragment (\<open>t\<close> without one trailing hyphen, hyphens read as spaces); when no title
  fragment remains the whole last segment is slugified instead, which for a segment that
  is the identifier alone is the identifier as written, lower-cased, hyphens kept; when
  the slugified fragment is empty the slug is the normalized (hyphen-stripped) identifier.
\<close>

theorem C9_unresolved_link_fallback:
  assumes raw: "raw \<noteq> []"
      and parse: "url_Parse L raw = Some u"
      and host: "Contains (Host u) ''notion.so''"
      and seg: "last (Split (Trim (Path u) ''/'') ''/'') = t @ ident"
      and ident: "is_dashed_uuid ident \<or> (length ident = 32 \<and> list_all is_hex ident)"
      and unresolved: "resolve (ReplaceAll ident ''-'' []) = []"
  shows "notionURLToHugoLink L raw (Some resolve) =
           ''/posts/'' @
           (let title = TrimSuffix t ''-'';
                frag = slugify (ReplaceAll (if title = [] then t @ ident else title) ''-'' '' '')
            in if frag = [] then ReplaceAll ident ''-'' [] else frag) @ ''/'' \<and>
         (t = [] \<longrightarrow> notionURLToHugoLink L raw (Some resolve) = ''/posts/'' @ ToLower ident @ ''/'')"
proof -
  have host_ne: "Host u \<noteq> []" using host by auto
  have id_ne: "ident \<noteq> []" using ident by (auto simp: is_dashed_uuid_def)
  have m: "match_uuid (t @ ident) = (ident, TrimSuffix t ''-'')"
  proof (cases "is_dashed_uuid ident")
    case True
    show ?thesis using TrimSuffix_dash_ident [of t ident]
      by (simp add: match_uuid_def reDashed_dashed [OF True] Let_def)
  next
    case False
    then have h: "length ident = 32" "list_all is_hex ident" using ident by auto
    show ?thesis
      by (simp add: match_uuid_def reDashed_hex32 [OF h] reNoDash_hex32 [OF h] TrimSuffix_append)
  qed
  have main: "notionURLToHugoLink L raw (Some resolve) =
           ''/posts/'' @
           (let title = TrimSuffix t ''-'';
                frag = slugify (ReplaceAll (if title = [] then t @ ident else title) ''-'' '' '')
            in if frag = [] then ReplaceAll ident ''-'' [] else frag) @ ''/''"
    using raw parse host host_ne id_ne unresolved
    by (simp add: notionURLToHugoLink_def seg m Let_def del: Contains.simps)
  have chars: "\<forall>c\<in>set ident. is_hex c \<or> c = CHR ''-''"
    using ident dashed_uuid_chars by (auto simp: list_all_iff)
  have "ToLower ident \<noteq> []" using id_ne by (simp add: ToLower_def)
  then have "t = [] \<Longrightarrow> notionURLToHugoLink L raw (Some resolve) = ''/posts/'' @ ToLower ident @ ''/''"
    using main slugify_ident [OF chars] by (simp add: TrimSuffix_def HasSuffix_def Let_def)
  with main show ?thesis by blast
qed

theorem C9_unresolved_link_fallback_witness:
  "notionURLToHugoLink ex_notion_lib
     ''https://www.notion.so/ws/My-Page-0123456789ABCDEF0123456789abcdef''
     (Some (\<lambda>pageID. [])) = ''/posts/my-page/''"
proof -
  let ?u = "\<lparr>Scheme = ''https'', Host = ''www.notion.so'',
             Path = ''/ws/My-Page-0123456789ABCDEF0123456789abcdef'', RawQuery = []\<rparr>"
  let ?id = "''0123456789ABCDEF0123456789abcdef''"
  have a: "url_Parse ex_notion_lib
             ''https://www.notion.so/ws/My-Page-0123456789ABCDEF0123456789abcdef'' = Some ?u"
    by code_simp
  have b: "Contains (Host ?u) ''notion.so''"
    by code_simp
  have c: "last (Split (Trim (Path ?u) ''/'') ''/'') = ''My-Page-'' @ ?id"
    by code_simp
  have d: "is_dashed_uuid ?id \<or> (length ?id = 32 \<and> list_all is_hex ?id)"
    by code_simp
  have e: "(\<lambda>pageID::string. []::string) (ReplaceAll ?id ''-'' []) = []"
    by simp
  have f: "(let title = TrimSuffix ''My-Page-'' ''-'';
                frag = slugify (ReplaceAll (if title = [] then ''My-Page-'' @ ?id else title)
                                  ''-'' '' '')
            in if frag = [] then ReplaceAll ?id ''-'' [] else frag) = ''my-page''"
    by code_simp
  from C9_unresolved_link_fallback [OF _ a b c d e] f show ?thesis by simp
qed

section \<open>Properties of the file cache\<close>

text \<open>
  C6 says that two URLs which differ only in their transient signing parameters get the
  identical file name.  The code keeps this for the stable identifier and its hash, and
  breaks it for the extension: when the path of the URL has no extension,
  \<open>extractExtension\<close> searches the whole URL, query included, for \<open>image\<close>, \<open>video\<close> and
  \<open>pdf\<close>.  The two URLs below are the same object, signed twice; the security token of
  the first happens to contain \<open>pdf\<close>.  Whatever the hash function \<open>h\<close> is, the two file
  names differ in their extension.
\<close>

theorem C6_resigned_url_changes_filename:
  "generateFilename (ex_s3_lib h) url_signed_pdf =
     take 8 (h ''/secure.notion-static.com/abc123/LICENSE'') @ ''.pdf'' \<and>
   generateFilename (ex_s3_lib h) url_signed_xyz =
     take 8 (h ''/secure.notion-static.com/abc123/LICENSE'') @ ''.bin''"
proof -
  have pa: "ex_s3_url url_signed_pdf =
      Some \<lparr>Scheme = ''https'', Host = ''s3.us-west-2.amazonaws.com'',
            Path = ''/secure.notion-static.com/abc123/LICENSE'',
            RawQuery = ''X-Amz-Date=20230101T000000Z&X-Amz-Security-Token=AQoDpdfQ''\<rparr>"
    by code_simp
  have pb: "ex_s3_url url_signed_xyz =
      Some \<lparr>Scheme = ''https'', Host = ''s3.us-west-2.amazonaws.com'',
            Path = ''/secure.notion-static.com/abc123/LICENSE'',
            RawQuery = ''X-Amz-Date=20230102T000000Z&X-Amz-Security-Token=AQoDxyzQ''\<rparr>"
    by code_simp
  have ext: "filepath_Ext ''/secure.notion-static.com/abc123/LICENSE'' = []"
    by code_simp
  have host: "Contains ''s3.us-west-2.amazonaws.com'' ''amazonaws.com''"
    by code_simp
  have ca: "\<not> Contains url_signed_pdf ''image''" "\<not> Contains url_signed_pdf ''video''"
    "Contains url_signed_pdf ''pdf''"
    by code_simp+
  have cb: "\<not> Contains url_signed_xyz ''image''" "\<not> Contains url_signed_xyz ''video''"
    "\<not> Contains url_signed_xyz ''pdf''"
    by code_simp+
  show ?thesis
    by (simp add: generateFilename_def extractExtension_def extractFileIdentifier_def
        ex_s3_lib_def pa pb ext host ca cb Let_def del: Contains.simps)
qed

text \<open>What does hold: two URLs with the same host and path get the same file name as
  soon as the path has an extension.\<close>

lemma generateFilename_resigned_with_extension:
  assumes "url_Parse L u1 = Some p1" "url_Parse L u2 = Some p2"
      and "Host p1 = Host p2" "Path p1 = Path p2"
      and "filepath_Ext (Path p1) \<noteq> []"
  shows "generateFilename L u1 = generateFilename L u2"
  using assms
  by (simp add: generateFilename_def extractExtension_def extractFileIdentifier_def Let_def)

lemma downloadFile_errors:
  "http_Get (httpClient fc) u = Inl e \<Longrightarrow> downloadFile fc u p \<noteq> None"
  "http_Get (httpClient fc) u = Inr status \<Longrightarrow> status \<noteq> 200 \<Longrightarrow> downloadFile fc u p \<noteq> None"
  "os_Create (httpClient fc) p = Some e \<Longrightarrow> downloadFile fc u p \<noteq> None"
  "io_Copy (httpClient fc) p = Some e \<Longrightarrow> downloadFile fc u p \<noteq> None"
  by (auto simp: downloadFile_def split: sum.splits option.splits)

lemma CacheFile_download_error:
  assumes "os_MkdirAll (httpClient fc) (filepath_Join L (basePath fc) (filepath_Dir L ap)) = None"
      and "os_Stat (httpClient fc)
             (filepath_Join L (filepath_Join L (basePath fc) (filepath_Dir L ap))
                (generateFilename L u)) \<noteq> None"
      and "downloadFile fc u
             (filepath_Join L (filepath_Join L (basePath fc) (filepath_Dir L ap))
                (generateFilename L u)) = Some e"
  shows "CacheFile L fc u ap = Inl (Errorf ''failed to download file'' e)"
  using assms by (simp add: CacheFile_def Let_def)



section \<open>Properties of the block renderer\<close>

text \<open>
  C10: for every PDF block and every link-preview block, whatever its has-children flag
  and whatever the callback, rendering the block passes no identifier to the
  children-fetch callback (the list of calls is empty) and the result is the Markdown of
  the per-kind formatter, which takes no child content.
\<close>

theorem C10_pdf_link_preview_never_fetch:
  "(Data blk = PdfBlock b \<longrightarrow>
      renderBlock (Suc n) E blk =
        Some (Inr (TrimRight (pdfToMarkdownWithCache (cl_lib E) b (cl_fileCache E)
                                (cl_articlePath E) (cl_config E)) nl, False), [])) \<and>
   (Data blk = LinkPreviewBlock u \<longrightarrow>
      renderBlock (Suc n) E blk =
        Some (Inr (TrimRight (linkPreviewToMarkdown (cl_lib E) u) nl, False), []))"
  by (simp add: getBlockIDAndHasChildren_def finish_block_def blockToMarkdownWithCache_def)

theorem C10_pdf_link_preview_never_fetch_witness:
  "renderBlock (Suc 0) ex_closure ex_pdf_block =
     Some (Inr (''{{< pdf src='' @ dquote @ ''https://example.com/a'' @ dquote @ '' >}}'', False),
           []) \<and>
   renderBlock (Suc 0) ex_closure ex_link_preview_block =
     Some (Inr (''[example.com/a](https://example.com/a)'', False), [])"
proof -
  let ?m = "\<lparr>File = None, External = Some ''https://example.com/a'', Caption = []\<rparr>"
  have a: "Data ex_pdf_block = PdfBlock ?m"
    by (simp add: ex_pdf_block_def)
  have b: "Data ex_link_preview_block = LinkPreviewBlock ''https://example.com/a''"
    by (simp add: ex_link_preview_block_def)
  have c: "TrimRight (pdfToMarkdownWithCache (cl_lib ex_closure) ?m (cl_fileCache ex_closure)
                        (cl_articlePath ex_closure) (cl_config ex_closure)) nl =
           ''{{< pdf src='' @ dquote @ ''https://example.com/a'' @ dquote @ '' >}}''"
    by code_simp
  have d: "TrimRight (linkPreviewToMarkdown (cl_lib ex_closure) ''https://example.com/a'') nl =
           ''[example.com/a](https://example.com/a)''"
    by code_simp
  from C10_pdf_link_preview_never_fetch [of ex_pdf_block ?m 0 ex_closure]
    C10_pdf_link_preview_never_fetch [of ex_link_preview_block _ 0 ex_closure
      "''https://example.com/a''"] a b c d
  show ?thesis by simp
qed

section \<open>Properties of the table formatter\<close>

lemma table_parse_rows:
  "table_parse lns parsed mc =
     (parsed @ map table_parts (filter (\<lambda>ln. TrimSpace ln \<noteq> []) lns),
      foldl max mc (map length (map table_parts (filter (\<lambda>ln. TrimSpace ln \<noteq> []) lns))))"
proof (induction lns arbitrary: parsed mc)
  case Nil
  then show ?case by simp
next
  case (Cons ln lns)
  show ?case
  proof (cases "TrimSpace ln = []")
    case True
    then show ?thesis by (simp add: Cons.IH)
  next
    case False
    have "(if mc < length (table_parts ln) then length (table_parts ln) else mc) =
          max mc (length (table_parts ln))"
      by (simp add: max_def)
    then show ?thesis using False by (simp add: Cons.IH Let_def)
  qed
qed

lemma foldl_max_ge: "(m::nat) \<le> foldl max m ns"
proof (induction ns arbitrary: m)
  case Nil
  then show ?case by simp
next
  case (Cons n ns)
  have "m \<le> max m n" by simp
  also have "max m n \<le> foldl max (max m n) ns" by (rule Cons.IH)
  finally show ?case by simp
qed

lemma foldl_max_upper: "n \<in> set ns \<Longrightarrow> (n::nat) \<le> foldl max m ns"
proof (induction ns arbitrary: m)
  case Nil
  then show ?case by simp
next
  case (Cons k ns)
  show ?case
  proof (cases "n = k")
    case True
    have "k \<le> max m k" by simp
    also have "max m k \<le> foldl max (max m k) ns" by (rule foldl_max_ge)
    finally show ?thesis using True by simp
  next
    case False
    then have "n \<in> set ns" using Cons.prems by simp
    then show ?thesis using Cons.IH by simp
  qed
qed

lemma foldl_max_attained: "foldl max m ns = (m::nat) \<or> foldl max m ns \<in> set ns"
proof (induction ns arbitrary: m)
  case Nil
  then show ?case by simp
next
  case (Cons k ns)
  from Cons.IH [of "max m k"] show ?case
    by (auto simp: max_def split: if_splits)
qed

lemma Join_lines:
  "xs \<noteq> [] \<Longrightarrow> Join xs sep = hd xs @ concat (map ((@) sep) (tl xs))"
  by (induction xs sep rule: Join.induct) simp_all

lemma table_normalize_pad:
  "length r \<le> m \<Longrightarrow>
   table_normalize m r = ''| '' @ Join (r @ replicate (m - length r) []) '' | '' @ '' |''"
  by (simp add: table_normalize_def Let_def)

text \<open>
  The output of the table formatter in terms of the rows it reads back from the
  pre-rendered child content (the non-blank lines of the trimmed content, split into
  trimmed cells), when the column-header flag is set and there is at least one such row.
  With \<open>m\<close> the number of cells of the widest of these rows, the Markdown is the first
  row, directly beneath it a separator row of \<open>m\<close> cells \<open>---\<close>, then the remaining
  rows, every row with empty trailing cells added up to \<open>m\<close> cells.  The rows read back
  need not be the rows of the table: see below.
\<close>

lemma tableToMarkdown_parsed_rows:
  assumes rows: "rows = map table_parts (filter (\<lambda>ln. TrimSpace ln \<noteq> [])
                          (Split (TrimSpace (dedentChildContent childContent)) nl))"
      and nonempty: "rows \<noteq> []"
  shows "\<exists>m. (\<forall>r\<in>set rows. length r \<le> m) \<and> (\<exists>r\<in>set rows. length r = m) \<and>
           (\<forall>r\<in>set rows. length (r @ replicate (m - length r) []) = m) \<and>
           tableToMarkdown True childContent =
             ''| '' @ Join (hd rows @ replicate (m - length (hd rows)) []) '' | '' @ '' |'' @ nl @
             ''| '' @ Join (replicate m ''---'') '' | '' @ '' |'' @
             concat (map (\<lambda>r. nl @ ''| '' @ Join (r @ replicate (m - length r) []) '' | '' @ '' |'')
                       (tl rows))"
proof -
  define m where "m = foldl max 0 (map length rows)"
  have le: "\<forall>r\<in>set rows. length r \<le> m"
    unfolding m_def using foldl_max_upper by fastforce
  have "m \<in> set (map length rows)"
  proof (cases "m = 0")
    case True
    from nonempty obtain r rs where r: "rows = r # rs" by (cases rows) auto
    then have "length r \<le> m" using le by simp
    then have "length r = m" using True by simp
    then show ?thesis using r by auto
  next
    case False
    then show ?thesis
      using foldl_max_attained [of 0 "map length rows"] unfolding m_def by auto
  qed
  then have attained: "\<exists>r\<in>set rows. length r = m" by auto
  have s_ne: "TrimSpace (dedentChildContent childContent) \<noteq> []"
  proof
    assume e: "TrimSpace (dedentChildContent childContent) = []"
    have "Split [] nl = [[]]" by (simp add: Split_def nl_def)
    moreover have "TrimSpace [] = []" by (simp add: TrimSpace_def)
    ultimately have "rows = []" unfolding rows e by simp
    with nonempty show False by simp
  qed
  have parse: "table_parse (Split (TrimSpace (dedentChildContent childContent)) nl) [] 0 = (rows, m)"
    by (simp add: table_parse_rows rows m_def)
  have norm: "map (table_normalize m) rows =
              map (\<lambda>r. ''| '' @ Join (r @ replicate (m - length r) []) '' | '' @ '' |'') rows"
    using le by (simp add: table_normalize_pad)
  have hd_tl: "rows = hd rows # tl rows" using nonempty by simp
  have rest: "(if length (map (table_normalize m) rows) > 1
               then nl @ Join (tl (map (table_normalize m) rows)) nl else []) =
              concat (map (\<lambda>r. nl @ ''| '' @ Join (r @ replicate (m - length r) []) '' | '' @ '' |'')
                        (tl rows))"
  proof (cases "tl rows = []")
    case True
    then have "length rows = 1" using hd_tl by (metis length_Cons list.size(3) One_nat_def)
    then show ?thesis using True by simp
  next
    case False
    then have "1 < length rows" using hd_tl
      by (metis One_nat_def length_Cons length_greater_0_conv less_Suc_eq not_less_eq)
    moreover have "tl (map (table_normalize m) rows) =
        map (\<lambda>r. ''| '' @ Join (r @ replicate (m - length r) []) '' | '' @ '' |'') (tl rows)"
      by (metis norm map_tl)
    moreover have "nl @ Join xs nl = concat (map ((@) nl) xs)" if "xs \<noteq> []" for xs
      using that Join_lines [of xs nl] by (cases xs) simp_all
    ultimately show ?thesis using False by (simp add: comp_def)
  qed
  have hd_norm: "hd (map (table_normalize m) rows) =
                 ''| '' @ Join (hd rows @ replicate (m - length (hd rows)) []) '' | '' @ '' |''"
    using nonempty le by (simp add: hd_map table_normalize_pad)
  have out: "tableToMarkdown True childContent =
             ''| '' @ Join (hd rows @ replicate (m - length (hd rows)) []) '' | '' @ '' |'' @ nl @
             ''| '' @ Join (replicate m ''---'') '' | '' @ '' |'' @
             concat (map (\<lambda>r. nl @ ''| '' @ Join (r @ replicate (m - length r) []) '' | '' @ '' |'')
                       (tl rows))"
    unfolding tableToMarkdown_def Let_def parse
    using s_ne nonempty rest hd_norm by simp
  have len: "\<forall>r\<in>set rows. length (r @ replicate (m - length r) []) = m"
    using le by simp
  from le attained len out show ?thesis by blast
qed

text \<open>
  A table of two rows, one with the cells (empty, Q1, Q2) and one with the cells (a, b),
  with the three-cell row in second place.  Its line \<open> | Q1 | Q2\<close> keeps the blank in
  front of the first bar, is read back as three cells, and the two-cell row is padded:
  three columns in every row and in the separator row.
\<close>

lemma tableToMarkdown_empty_first_cell_below:
  "renderBlock (Suc (Suc 0)) ex_table_closure ex_table_swapped =
     Some (Inr (''| a | b |  |'' @ nl @ ''| --- | --- | --- |'' @ nl @ ''|  | Q1 | Q2 |'', False),
           [''tbl2''])"
  by code_simp

text \<open>
  C5 fails for a table whose header row starts with an empty cell.  The header row with
  the cells (empty, Q1, Q2) is pre-rendered as \<open> | Q1 | Q2\<close> and the row with the cells
  (a, b) as \<open>a | b\<close>: three columns and two.  The table formatter trims the whole child
  content before it splits it into lines, which removes the blank in front of the first
  bar of the first line; that line is then read back as the two cells \<open>| Q1\<close> and
  \<open>Q2\<close>.  The rendered table has a header line of three columns, a separator row of
  two cells \<open>---\<close>, and the two-cell row is not padded.
\<close>

theorem C5_empty_header_cell_drops_column:
  "renderBlock (Suc 0) ex_table_closure ex_table_header_row =
     Some (Inr ('' | Q1 | Q2'', False), []) \<and>
   renderBlock (Suc 0) ex_table_closure ex_table_data_row =
     Some (Inr (''a | b'', False), []) \<and>
   renderBlock (Suc (Suc 0)) ex_table_closure ex_table =
     Some (Inr (''| | Q1 | Q2 |'' @ nl @ ''| --- | --- |'' @ nl @ ''| a | b |'', False),
           [''tbl''])"
  by code_simp

section \<open>Properties of the recursive renderer\<close>

lemma uniform_fuel:
  assumes "\<forall>c\<in>set cs. \<exists>n0. \<forall>n\<ge>n0. P c (n::nat)"
  shows "\<exists>N. \<forall>c\<in>set cs. \<forall>n\<ge>N. P c n"
  using assms
proof (induction cs)
  case Nil
  then show ?case by simp
next
  case (Cons c cs)
  then obtain N where N: "\<forall>c\<in>set cs. \<forall>n\<ge>N. P c n" by auto
  from Cons.prems obtain n0 where n0: "\<forall>n\<ge>n0. P c n" by auto
  have "\<forall>c'\<in>set (c # cs). \<forall>n\<ge>max N n0. P c' n"
    using N n0 by auto
  then show ?case ..
qed

lemma renderChildren_all_ok:
  assumes "\<forall>c\<in>set cs. \<exists>s l k. renderBlock n E c = Some (Inr (s, l), k)"
  shows "\<exists>cc k. renderChildren n E blk cs childContent prev = Some (Inr cc, k)"
  using assms
proof (induction cs arbitrary: childContent prev)
  case Nil
  then show ?case by simp
next
  case (Cons c cs)
  then obtain s l k where c: "renderBlock n E c = Some (Inr (s, l), k)" by auto
  obtain cc' prev' where a: "append_child blk childContent prev s l = (cc', prev')"
    by (cases "append_child blk childContent prev s l")
  from Cons obtain cc k' where "renderChildren n E blk cs cc' prev' = Some (Inr cc, k')"
    by fastforce
  then show ?case using c a by simp
qed

lemma renderChildren_first_error:
  assumes "\<forall>p\<in>set pre. \<exists>s l k. renderBlock n E p = Some (Inr (s, l), k)"
      and "renderBlock n E c = Some (Inl err, k)"
  shows "\<exists>k'. renderChildren n E blk (pre @ c # post) childContent prev = Some (Inl err, k')"
  using assms
proof (induction pre arbitrary: childContent prev)
  case Nil
  then show ?case by simp
next
  case (Cons p pre)
  then obtain s l kp where p: "renderBlock n E p = Some (Inr (s, l), kp)" by auto
  obtain cc' prev' where a: "append_child blk childContent prev s l = (cc', prev')"
    by (cases "append_child blk childContent prev s l")
  from Cons obtain k' where
    "renderChildren n E blk (pre @ c # post) cc' prev' = Some (Inl err, k')"
    by fastforce
  then show ?case using p a by simp
qed

lemma renderTop_first_error:
  assumes "\<forall>p\<in>set pre. \<exists>s l k. renderBlock n E p = Some (Inr (s, l), k)"
      and "renderBlock n E c = Some (Inl err, k)"
  shows "\<exists>k'. renderTop n E (pre @ c # post) markdown prev = Some (Inl err, k')"
  using assms
proof (induction pre arbitrary: markdown prev)
  case Nil
  then show ?case by simp
next
  case (Cons p pre)
  then obtain s l kp where p: "renderBlock n E p = Some (Inr (s, l), kp)" by auto
  obtain md' prev' where a: "append_top markdown prev s l = (md', prev')"
    by (cases "append_top markdown prev s l")
  from Cons obtain k' where
    "renderTop n E (pre @ c # post) md' prev' = Some (Inl err, k')"
    by fastforce
  then show ?case using p a by simp
qed

lemma renderBlock_leaf:
  assumes "\<not> fetches blk"
  shows "renderBlock (Suc n) E blk = Some (Inr (finish_block E blk []), [])"
proof (cases "getBlockIDAndHasChildren blk")
  case (Pair id has)
  then show ?thesis using assms by (simp add: fetches_def)
qed

lemma renderBlock_node:
  assumes "fetches blk" "cl_getChildren E = Some gc"
      and "bid = fst (getBlockIDAndHasChildren blk)"
  shows "renderBlock (Suc n) E blk =
     (case gc bid of
        Inl err \<Rightarrow> Some (Inl err, [bid])
      | Inr children \<Rightarrow>
          (case renderChildren n E blk children [] False of
             None \<Rightarrow> None
           | Some (Inl err, calls) \<Rightarrow> Some (Inl err, bid # calls)
           | Some (Inr childContent, calls) \<Rightarrow>
               Some (Inr (finish_block E blk (TrimRight childContent nl)), bid # calls)))"
proof (cases "getBlockIDAndHasChildren blk")
  case (Pair id has)
  with assms have b: "bid = id" and h: "has" by (simp_all add: fetches_def)
  show ?thesis unfolding b using Pair h assms(2) by simp
qed

lemma fetch_ok_renders:
  assumes "fetch_ok gc blk" "cl_getChildren E = Some gc"
  shows "\<exists>n0. \<forall>n\<ge>n0. \<exists>s l k. renderBlock n E blk = Some (Inr (s, l), k)"
  using assms
proof (induction rule: fetch_ok.induct)
  case (leaf blk)
  have "\<forall>n\<ge>Suc 0. \<exists>s l k. renderBlock n E blk = Some (Inr (s, l), k)"
  proof (intro allI impI)
    fix n :: nat assume "Suc 0 \<le> n"
    then obtain m where "n = Suc m" by (cases n) auto
    then show "\<exists>s l k. renderBlock n E blk = Some (Inr (s, l), k)"
      using renderBlock_leaf [OF leaf.hyps, of m E] by (cases "finish_block E blk []") auto
  qed
  then show ?case ..
next
  case (node blk children)
  then have "\<forall>c\<in>set children. \<exists>n0. \<forall>n\<ge>n0. \<exists>s l k. renderBlock n E c = Some (Inr (s, l), k)"
    by simp
  from uniform_fuel [OF this] obtain N where
    N: "\<forall>c\<in>set children. \<forall>n\<ge>N. \<exists>s l k. renderBlock n E c = Some (Inr (s, l), k)"
    by blast
  have "\<forall>n\<ge>Suc N. \<exists>s l k. renderBlock n E blk = Some (Inr (s, l), k)"
  proof (intro allI impI)
    fix n :: nat assume "Suc N \<le> n"
    then obtain m where m: "n = Suc m" "N \<le> m" by (cases n) auto
    with N have "\<forall>c\<in>set children. \<exists>s l k. renderBlock m E c = Some (Inr (s, l), k)" by simp
    from renderChildren_all_ok [OF this] obtain cc k where
      "renderChildren m E blk children [] False = Some (Inr cc, k)" by blast
    then show "\<exists>s l k. renderBlock n E blk = Some (Inr (s, l), k)"
      using renderBlock_node [OF node.hyps(1) node.prems refl, of m] node.hyps(2) m(1)
      by (cases "finish_block E blk (TrimRight cc nl)") auto
  qed
  then show ?case ..
qed

lemma fetch_fails_renders:
  assumes "fetch_fails gc blk err" "cl_getChildren E = Some gc"
  shows "\<exists>n0. \<forall>n\<ge>n0. \<exists>k. renderBlock n E blk = Some (Inl err, k)"
  using assms
proof (induction rule: fetch_fails.induct)
  case (here blk err)
  have "\<forall>n\<ge>Suc 0. \<exists>k. renderBlock n E blk = Some (Inl err, k)"
  proof (intro allI impI)
    fix n :: nat assume "Suc 0 \<le> n"
    then obtain m where "n = Suc m" by (cases n) auto
    then show "\<exists>k. renderBlock n E blk = Some (Inl err, k)"
      using renderBlock_node [OF here.hyps(1) here.prems refl, of m] here.hyps(2) by simp
  qed
  then show ?case ..
next
  case (below blk pre c post err)
  from below.IH [OF below.prems] obtain n1 where
    n1: "\<forall>n\<ge>n1. \<exists>k. renderBlock n E c = Some (Inl err, k)" by blast
  have "\<forall>p\<in>set pre. \<exists>n0. \<forall>n\<ge>n0. \<exists>s l k. renderBlock n E p = Some (Inr (s, l), k)"
    using below.hyps(3) fetch_ok_renders [OF _ below.prems] by blast
  from uniform_fuel [OF this] obtain N where
    N: "\<forall>p\<in>set pre. \<forall>n\<ge>N. \<exists>s l k. renderBlock n E p = Some (Inr (s, l), k)"
    by blast
  have "\<forall>n\<ge>Suc (max N n1). \<exists>k. renderBlock n E blk = Some (Inl err, k)"
  proof (intro allI impI)
    fix n :: nat assume "Suc (max N n1) \<le> n"
    then obtain m where m: "n = Suc m" "N \<le> m" "n1 \<le> m" by (cases n) auto
    from N m have a: "\<forall>p\<in>set pre. \<exists>s l k. renderBlock m E p = Some (Inr (s, l), k)" by simp
    from n1 m obtain k where b: "renderBlock m E c = Some (Inl err, k)" by blast
    from renderChildren_first_error [OF a b] obtain k' where
      "renderChildren m E blk (pre @ c # post) [] False = Some (Inl err, k')" by blast
    then show "\<exists>k. renderBlock n E blk = Some (Inl err, k)"
      using renderBlock_node [OF below.hyps(1) below.prems refl, of m] below.hyps(2) m(1) by simp
  qed
  then show ?case ..
qed

lemma finish_block_isList: "snd (finish_block E blk cc) = list_like blk"
  by (simp add: finish_block_def blockToMarkdownWithCache_def list_like_def
      split: block_data.splits prod.splits)

lemma renderBlock_isList:
  assumes "renderBlock n E blk = Some (Inr (s, l), k)"
  shows "l = list_like blk"
proof (cases n)
  case 0
  then show ?thesis using assms by simp
next
  case (Suc m)
  obtain bid has where g: "getBlockIDAndHasChildren blk = (bid, has)"
    by (cases "getBlockIDAndHasChildren blk")
  from assms obtain cc where "finish_block E blk cc = (s, l)"
    unfolding Suc
    by (auto simp: g split: if_splits option.splits sum.splits prod.splits)
  then show ?thesis using finish_block_isList [of E blk cc] by (metis snd_conv)
qed

lemma append_top_extends: "\<exists>x. fst (append_top md prev s l) = md @ x"
  by (simp add: append_top_def Let_def)

lemma append_child_extends: "\<exists>x. fst (append_child blk cc prev s l) = cc @ x"
  by (simp add: append_child_def Let_def)

lemma renderTop_extends:
  assumes "renderTop n E bs md prev = Some (Inr out, k)"
  shows "\<exists>after. out = md @ after"
  using assms
proof (induction bs arbitrary: md prev k)
  case Nil
  then show ?case by simp
next
  case (Cons b bs)
  from Cons.prems obtain s l k1 where b: "renderBlock n E b = Some (Inr (s, l), k1)"
    by (auto split: option.splits sum.splits prod.splits)
  obtain md' prev' where a: "append_top md prev s l = (md', prev')"
    by (cases "append_top md prev s l")
  from Cons.prems b a obtain k2 where "renderTop n E bs md' prev' = Some (Inr out, k2)"
    by (auto split: option.splits sum.splits prod.splits)
  from Cons.IH [OF this] obtain after where "out = md' @ after" ..
  moreover from append_top_extends [of md prev s l] a obtain x where "md' = md @ x" by auto
  ultimately show ?case by simp
qed

lemma renderChildren_extends:
  assumes "renderChildren n E blk cs cc prev = Some (Inr out, k)"
  shows "\<exists>after. out = cc @ after"
  using assms
proof (induction cs arbitrary: cc prev k)
  case Nil
  then show ?case by simp
next
  case (Cons c cs)
  from Cons.prems obtain s l k1 where b: "renderBlock n E c = Some (Inr (s, l), k1)"
    by (auto split: option.splits sum.splits prod.splits)
  obtain cc' prev' where a: "append_child blk cc prev s l = (cc', prev')"
    by (cases "append_child blk cc prev s l")
  from Cons.prems b a obtain k2 where "renderChildren n E blk cs cc' prev' = Some (Inr out, k2)"
    by (auto split: option.splits sum.splits prod.splits)
  from Cons.IH [OF this] obtain after where "out = cc' @ after" ..
  moreover from append_child_extends [of blk cc prev s l] a obtain x where "cc' = cc @ x" by auto
  ultimately show ?case by simp
qed

lemma renderTop_skip_prefix:
  assumes "renderTop n E (xs @ ys) md prev = Some (Inr out, k)"
  shows "\<exists>md' prev' k'. renderTop n E ys md' prev' = Some (Inr out, k')"
  using assms
proof (induction xs arbitrary: md prev k)
  case Nil
  then show ?case by auto
next
  case (Cons b xs)
  from Cons.prems obtain s l k1 where b: "renderBlock n E b = Some (Inr (s, l), k1)"
    by (auto split: option.splits sum.splits prod.splits)
  obtain md' prev' where a: "append_top md prev s l = (md', prev')"
    by (cases "append_top md prev s l")
  from Cons.prems b a obtain k2 where "renderTop n E (xs @ ys) md' prev' = Some (Inr out, k2)"
    by (auto split: option.splits sum.splits prod.splits)
  from Cons.IH [OF this] show ?case .
qed

lemma renderChildren_skip_prefix:
  assumes "renderChildren n E blk (xs @ ys) cc prev = Some (Inr out, k)"
  shows "\<exists>cc' prev' k'. renderChildren n E blk ys cc' prev' = Some (Inr out, k')"
  using assms
proof (induction xs arbitrary: cc prev k)
  case Nil
  then show ?case by auto
next
  case (Cons c xs)
  from Cons.prems obtain s l k1 where b: "renderBlock n E c = Some (Inr (s, l), k1)"
    by (auto split: option.splits sum.splits prod.splits)
  obtain cc' prev' where a: "append_child blk cc prev s l = (cc', prev')"
    by (cases "append_child blk cc prev s l")
  from Cons.prems b a obtain k2 where
    "renderChildren n E blk (xs @ ys) cc' prev' = Some (Inr out, k2)"
    by (auto split: option.splits sum.splits prod.splits)
  from Cons.IH [OF this] show ?case .
qed

lemma renderTop_pair:
  assumes r1: "renderBlock n E b1 = Some (Inr (s1, l1), k1)"
      and r2: "renderBlock n E b2 = Some (Inr (s2, l2), k2)"
      and top: "renderTop n E (b1 # b2 # post) md prev = Some (Inr out, k)"
      and ne: "s1 \<noteq> []"
  shows "\<exists>before after. out = before @ s1 @ (if l1 \<and> l2 then nl else nl @ nl) @ s2 @ after"
proof -
  obtain m1 where a1: "append_top md prev s1 l1 = (m1, l1)"
    by (simp add: append_top_def Let_def)
  then obtain before where m1: "m1 = before @ s1"
    by (auto simp: append_top_def Let_def split: if_splits)
  then have "m1 \<noteq> []" using ne by simp
  then have a2: "append_top m1 l1 s2 l2 = (m1 @ (if l1 \<and> l2 then nl else nl @ nl) @ s2, l2)"
    by (simp add: append_top_def Let_def)
  from top r1 r2 a1 a2 obtain k3 where
    "renderTop n E post (m1 @ (if l1 \<and> l2 then nl else nl @ nl) @ s2) l2 = Some (Inr out, k3)"
    by (auto split: option.splits sum.splits prod.splits)
  from renderTop_extends [OF this] obtain after where
    "out = (m1 @ (if l1 \<and> l2 then nl else nl @ nl) @ s2) @ after" ..
  then have "out = before @ s1 @ (if l1 \<and> l2 then nl else nl @ nl) @ s2 @ after"
    using m1 by simp
  then show ?thesis by blast
qed

lemma renderChildren_pair:
  assumes r1: "renderBlock n E b1 = Some (Inr (s1, l1), k1)"
      and r2: "renderBlock n E b2 = Some (Inr (s2, l2), k2)"
      and ch: "renderChildren n E blk (b1 # b2 # post) cc prev = Some (Inr out, k)"
      and ne: "child_rendered blk s1 \<noteq> []"
  shows "\<exists>before after.
           out = before @ child_rendered blk s1 @
                 (if isColumnList blk then nl @ ''__COLUMN_BREAK__'' @ nl else []) @
                 (if l1 \<and> l2 then nl else nl @ nl) @ child_rendered blk s2 @ after"
proof -
  let ?mark = "if isColumnList blk then nl @ ''__COLUMN_BREAK__'' @ nl else []"
  let ?sep = "if l1 \<and> l2 then nl else nl @ nl"
  obtain c1 where a1: "append_child blk cc prev s1 l1 = (c1, l1)"
    by (simp add: append_child_def Let_def)
  then obtain before where c1: "c1 = before @ child_rendered blk s1 @ ?mark"
    by (auto simp: append_child_def Let_def split: if_splits)
  then have "c1 \<noteq> []" using ne by simp
  then have a2: "append_child blk c1 l1 s2 l2 = (c1 @ ?sep @ child_rendered blk s2 @ ?mark, l2)"
    by (simp add: append_child_def Let_def)
  from ch r1 r2 a1 a2 obtain k3 where
    "renderChildren n E blk post (c1 @ ?sep @ child_rendered blk s2 @ ?mark) l2 = Some (Inr out, k3)"
    by (auto split: option.splits sum.splits prod.splits)
  from renderChildren_extends [OF this] obtain after where
    "out = (c1 @ ?sep @ child_rendered blk s2 @ ?mark) @ after" ..
  then have "out = before @ child_rendered blk s1 @ ?mark @ ?sep @ child_rendered blk s2 @
                   (?mark @ after)"
    using c1 by simp
  then show ?thesis by blast
qed

text \<open>
  Without a callback no block fetches; a block whose fetches all succeed renders, given
  enough fuel.
\<close>

lemma renderBlock_no_callback:
  assumes "cl_getChildren E = None"
  shows "renderBlock (Suc n) E blk = Some (Inr (finish_block E blk []), [])"
proof (cases "getBlockIDAndHasChildren blk")
  case (Pair bid has)
  then show ?thesis using assms by simp
qed

lemma walk_ok_renders:
  assumes "walk_ok E blk"
  shows "\<exists>n0. \<forall>n\<ge>n0. \<exists>s l k. renderBlock n E blk = Some (Inr (s, l), k)"
proof (cases "cl_getChildren E")
  case None
  have "\<forall>n\<ge>Suc 0. \<exists>s l k. renderBlock n E blk = Some (Inr (s, l), k)"
  proof (intro allI impI)
    fix n :: nat assume "Suc 0 \<le> n"
    then obtain m where "n = Suc m" by (cases n) auto
    then show "\<exists>s l k. renderBlock n E blk = Some (Inr (s, l), k)"
      using renderBlock_no_callback [OF None, of m blk] by (cases "finish_block E blk []") auto
  qed
  then show ?thesis ..
next
  case (Some gc)
  then have "fetch_ok gc blk" using assms by (simp add: walk_ok_def)
  from fetch_ok_renders [OF this Some] show ?thesis .
qed

text \<open>
  Fuel only bounds the depth of the recursion: a result obtained with some fuel is the
  result with any larger fuel.
\<close>

lemma renderChildren_fuel_Suc:
  assumes step: "\<And>b r. renderBlock n E b = Some r \<Longrightarrow> renderBlock (Suc n) E b = Some r"
      and "renderChildren n E blk cs cc prev = Some res"
  shows "renderChildren (Suc n) E blk cs cc prev = Some res"
  using assms(2)
proof (induction cs arbitrary: cc prev res)
  case Nil
  then show ?case by simp
next
  case (Cons c cs)
  from Cons.prems obtain r where r: "renderBlock n E c = Some r"
    by (cases "renderBlock n E c") auto
  then have r': "renderBlock (Suc n) E c = Some r" by (rule step)
  obtain v k where v: "r = (v, k)" by (cases r)
  show ?case
  proof (cases v)
    case (Inl err)
    then show ?thesis using Cons.prems r r' v by simp
  next
    case (Inr sl)
    obtain s l where sl: "sl = (s, l)" by (cases sl)
    obtain cc' prev' where a: "append_child blk cc prev s l = (cc', prev')"
      by (cases "append_child blk cc prev s l")
    from Cons.prems r v Inr sl a obtain res' k' where
      t: "renderChildren n E blk cs cc' prev' = Some (res', k')" and res: "res = (res', k @ k')"
      by (auto split: option.splits)
    from Cons.IH [OF t] have "renderChildren (Suc n) E blk cs cc' prev' = Some (res', k')" .
    then show ?thesis using r' v Inr sl a res by simp
  qed
qed

lemma renderBlock_fuel_Suc:
  "renderBlock n E blk = Some r \<Longrightarrow> renderBlock (Suc n) E blk = Some r"
proof (induction n arbitrary: blk r)
  case 0
  then show ?case by simp
next
  case (Suc n)
  obtain bid has where g: "getBlockIDAndHasChildren blk = (bid, has)"
    by (cases "getBlockIDAndHasChildren blk")
  show ?case
  proof (cases "if has then cl_getChildren E else None")
    case None
    then show ?thesis using Suc.prems g by simp
  next
    case (Some gc)
    show ?thesis
    proof (cases "gc bid")
      case (Inl err)
      then show ?thesis using Suc.prems g Some by simp
    next
      case (Inr children)
      from Suc.prems g Some Inr obtain res where
        c: "renderChildren n E blk children [] False = Some res"
        by (cases "renderChildren n E blk children [] False") auto
      have "renderChildren (Suc n) E blk children [] False = Some res"
        by (rule renderChildren_fuel_Suc [OF Suc.IH c])
      then show ?thesis using Suc.prems g Some Inr c by simp
    qed
  qed
qed

lemma renderBlock_fuel_mono:
  assumes "renderBlock n E blk = Some r" "n \<le> m"
  shows "renderBlock m E blk = Some r"
  using assms(2,1)
proof (induction rule: dec_induct)
  case base
  then show ?case .
next
  case (step k)
  from step.IH [OF step.prems] show ?case by (rule renderBlock_fuel_Suc)
qed

lemma renderChildren_fuel_mono:
  assumes "renderChildren n E blk cs cc prev = Some res" "n \<le> m"
  shows "renderChildren m E blk cs cc prev = Some res"
  using assms(2,1)
proof (induction rule: dec_induct)
  case base
  then show ?case .
next
  case (step k)
  from step.IH [OF step.prems] show ?case
    using renderBlock_fuel_Suc by (rule renderChildren_fuel_Suc [rotated])
qed

lemma renderTop_fuel_mono:
  assumes "renderTop n E bs md prev = Some res" "n \<le> m"
  shows "renderTop m E bs md prev = Some res"
  using assms(1)
proof (induction bs arbitrary: md prev res)
  case Nil
  then show ?case by simp
next
  case (Cons b bs)
  from Cons.prems obtain r where r: "renderBlock n E b = Some r"
    by (cases "renderBlock n E b") auto
  then have r': "renderBlock m E b = Some r" using assms(2) by (rule renderBlock_fuel_mono)
  obtain v k where v: "r = (v, k)" by (cases r)
  show ?case
  proof (cases v)
    case (Inl err)
    then show ?thesis using Cons.prems r r' v by simp
  next
    case (Inr sl)
    obtain s l where sl: "sl = (s, l)" by (cases sl)
    obtain md' prev' where a: "append_top md prev s l = (md', prev')"
      by (cases "append_top md prev s l")
    from Cons.prems r v Inr sl a obtain res' k' where
      t: "renderTop n E bs md' prev' = Some (res', k')" and res: "res = (res', k @ k')"
      by (auto split: option.splits)
    from Cons.IH [OF t] have "renderTop m E bs md' prev' = Some (res', k')" .
    then show ?thesis using r' v Inr sl a res by simp
  qed
qed

lemma renderTop_all_ok:
  assumes "\<forall>b\<in>set bs. \<exists>s l k. renderBlock n E b = Some (Inr (s, l), k)"
  shows "\<exists>out k. renderTop n E bs md prev = Some (Inr out, k)"
  using assms
proof (induction bs arbitrary: md prev)
  case Nil
  then show ?case by simp
next
  case (Cons b bs)
  then obtain s l k where b: "renderBlock n E b = Some (Inr (s, l), k)" by auto
  obtain md' prev' where a: "append_top md prev s l = (md', prev')"
    by (cases "append_top md prev s l")
  from Cons obtain out k' where "renderTop n E bs md' prev' = Some (Inr out, k')"
    by fastforce
  then show ?case using b a by simp
qed

text \<open>
  C4, as the spec states it, fails for the children of a column list: after every child
  the loop appends the column-break marker, so two list items under a column list are
  not joined by one newline, and they end up in two table cells.
\<close>

theorem C4_column_list_counterexample:
  "renderChildren (Suc 0) ex_tree_closure ex_column_list [ex_bullet_a, ex_bullet_b] [] False =
     Some (Inr (''- a'' @ nl @ ''__COLUMN_BREAK__'' @ nl @ nl @ ''- b'' @ nl @ ''__COLUMN_BREAK__'' @ nl), []) \<and>
   renderBlock (Suc (Suc 0)) ex_tree_closure ex_column_list =
     Some (Inr (''<table><tr><td>'' @ nl @ nl @ ''- a'' @ nl @ ''</td><td>'' @ nl @ nl @ ''- b'' @ nl @
                ''</td></tr></table>'', False), [''cl''])"
  by code_simp

text \<open>
  C4 (amended): for every list of sibling blocks, at the top level or the children of one
  parent, such that every children fetch at and below them succeeds, and for every two
  consecutive blocks of the list: with enough fuel for the depth of the tree both blocks
  render to a fragment, the top-level loop and the child loop return, and in the string
  returned the fragment of the second block follows the fragment of the first (indented
  as a child fragment is, and the first one not empty) after exactly one newline if both
  blocks are list-like and after a blank line otherwise; among the children of a column
  list the line with the column-break marker stands in addition between the first
  fragment and that separator.
\<close>

theorem C4_sibling_spacing:
  assumes ok: "\<forall>b\<in>set (pre @ b1 # b2 # post). walk_ok E b"
  shows "\<exists>n0 s1 s2 out cc. \<forall>n\<ge>n0.
           (\<exists>k. renderBlock n E b1 = Some (Inr (s1, list_like b1), k)) \<and>
           (\<exists>k. renderBlock n E b2 = Some (Inr (s2, list_like b2), k)) \<and>
           (\<exists>k. renderTop n E (pre @ b1 # b2 # post) [] False = Some (Inr out, k)) \<and>
           (\<exists>k. renderChildren n E parent (pre @ b1 # b2 # post) [] False = Some (Inr cc, k)) \<and>
           (s1 \<noteq> [] \<longrightarrow>
              (\<exists>before after.
                 out = before @ s1 @ (if list_like b1 \<and> list_like b2 then nl else nl @ nl) @ s2 @
                       after)) \<and>
           (child_rendered parent s1 \<noteq> [] \<longrightarrow>
              (\<exists>before after.
                 cc = before @ child_rendered parent s1 @
                      (if isColumnList parent then nl @ ''__COLUMN_BREAK__'' @ nl else []) @
                      (if list_like b1 \<and> list_like b2 then nl else nl @ nl) @
                      child_rendered parent s2 @ after))"
proof -
  let ?bs = "pre @ b1 # b2 # post"
  have "\<forall>b\<in>set ?bs. \<exists>n0. \<forall>n\<ge>n0. \<exists>s l k. renderBlock n E b = Some (Inr (s, l), k)"
    using ok walk_ok_renders by blast
  from uniform_fuel [OF this] obtain N where
    N: "\<forall>b\<in>set ?bs. \<forall>n\<ge>N. \<exists>s l k. renderBlock n E b = Some (Inr (s, l), k)"
    by blast
  then have all: "\<forall>b\<in>set ?bs. \<exists>s l k. renderBlock N E b = Some (Inr (s, l), k)"
    by blast
  from all obtain s1 l1 k1 where r1: "renderBlock N E b1 = Some (Inr (s1, l1), k1)" by auto
  from all obtain s2 l2 k2 where r2: "renderBlock N E b2 = Some (Inr (s2, l2), k2)" by auto
  have l: "l1 = list_like b1" "l2 = list_like b2"
    using renderBlock_isList [OF r1] renderBlock_isList [OF r2] by simp_all
  from renderTop_all_ok [OF all] obtain out kt where
    t: "renderTop N E ?bs [] False = Some (Inr out, kt)" by blast
  from renderChildren_all_ok [OF all] obtain cc kc where
    c: "renderChildren N E parent ?bs [] False = Some (Inr cc, kc)" by blast
  have top: "\<exists>before after.
               out = before @ s1 @ (if list_like b1 \<and> list_like b2 then nl else nl @ nl) @ s2 @ after"
    if "s1 \<noteq> []"
  proof -
    from renderTop_skip_prefix [OF t] obtain md prev k where
      "renderTop N E (b1 # b2 # post) md prev = Some (Inr out, k)" by blast
    from renderTop_pair [OF r1 r2 this that] show ?thesis unfolding l .
  qed
  have chi: "\<exists>before after.
               cc = before @ child_rendered parent s1 @
                    (if isColumnList parent then nl @ ''__COLUMN_BREAK__'' @ nl else []) @
                    (if list_like b1 \<and> list_like b2 then nl else nl @ nl) @
                    child_rendered parent s2 @ after"
    if "child_rendered parent s1 \<noteq> []"
  proof -
    from renderChildren_skip_prefix [OF c] obtain c0 prev k where
      "renderChildren N E parent (b1 # b2 # post) c0 prev = Some (Inr cc, k)" by blast
    from renderChildren_pair [OF r1 r2 this that] show ?thesis unfolding l .
  qed
  have "\<forall>n\<ge>N.
           (\<exists>k. renderBlock n E b1 = Some (Inr (s1, list_like b1), k)) \<and>
           (\<exists>k. renderBlock n E b2 = Some (Inr (s2, list_like b2), k)) \<and>
           (\<exists>k. renderTop n E ?bs [] False = Some (Inr out, k)) \<and>
           (\<exists>k. renderChildren n E parent ?bs [] False = Some (Inr cc, k)) \<and>
           (s1 \<noteq> [] \<longrightarrow>
              (\<exists>before after.
                 out = before @ s1 @ (if list_like b1 \<and> list_like b2 then nl else nl @ nl) @ s2 @
                       after)) \<and>
           (child_rendered parent s1 \<noteq> [] \<longrightarrow>
              (\<exists>before after.
                 cc = before @ child_rendered parent s1 @
                      (if isColumnList parent then nl @ ''__COLUMN_BREAK__'' @ nl else []) @
                      (if list_like b1 \<and> list_like b2 then nl else nl @ nl) @
                      child_rendered parent s2 @ after))"
  proof (intro allI impI conjI)
    fix n assume n: "N \<le> n"
    show "\<exists>k. renderBlock n E b1 = Some (Inr (s1, list_like b1), k)"
      using renderBlock_fuel_mono [OF r1 n] l by blast
    show "\<exists>k. renderBlock n E b2 = Some (Inr (s2, list_like b2), k)"
      using renderBlock_fuel_mono [OF r2 n] l by blast
    show "\<exists>k. renderTop n E ?bs [] False = Some (Inr out, k)"
      using renderTop_fuel_mono [OF t n] by blast
    show "\<exists>k. renderChildren n E parent ?bs [] False = Some (Inr cc, k)"
      using renderChildren_fuel_mono [OF c n] by blast
  next
    fix n assume "s1 \<noteq> []"
    then show "\<exists>before after.
               out = before @ s1 @ (if list_like b1 \<and> list_like b2 then nl else nl @ nl) @ s2 @ after"
      by (rule top)
  next
    fix n assume "child_rendered parent s1 \<noteq> []"
    then show "\<exists>before after.
               cc = before @ child_rendered parent s1 @
                    (if isColumnList parent then nl @ ''__COLUMN_BREAK__'' @ nl else []) @
                    (if list_like b1 \<and> list_like b2 then nl else nl @ nl) @
                    child_rendered parent s2 @ after"
      by (rule chi)
  qed
  then show ?thesis by blast
qed

theorem C4_sibling_spacing_witness:
  "walk_ok ex_tree_closure ex_column_list \<and> walk_ok ex_tree_closure ex_bullet_a \<and>
   walk_ok ex_tree_closure ex_bullet_b \<and> walk_ok ex_tree_closure ex_para \<and>
   (\<exists>n0. \<forall>n\<ge>n0.
      (\<exists>k. renderTop n ex_tree_closure [ex_column_list, ex_bullet_a, ex_bullet_b, ex_para] [] False =
            Some (Inr (''<table><tr><td>'' @ nl @ nl @ ''- a'' @ nl @ ''</td><td>'' @ nl @ nl @
                       ''- b'' @ nl @ ''</td></tr></table>'' @ nl @ nl @
                       ''- a'' @ nl @ ''- b'' @ nl @ nl @ ''Intro''), k)) \<and>
      (\<exists>k. renderChildren n ex_tree_closure ex_parent_item
              [ex_column_list, ex_bullet_a, ex_bullet_b, ex_para] [] False =
            Some (Inr (''    <table><tr><td>'' @ nl @ nl @ ''    - a'' @ nl @
                       ''    </td><td>'' @ nl @ nl @ ''    - b'' @ nl @
                       ''    </td></tr></table>'' @ nl @ nl @
                       ''    - a'' @ nl @ ''    - b'' @ nl @ nl @ ''    Intro''), k)))"
proof -
  let ?E = ex_tree_closure
  let ?bs = "[ex_column_list, ex_bullet_a, ex_bullet_b, ex_para]"
  let ?out = "''<table><tr><td>'' @ nl @ nl @ ''- a'' @ nl @ ''</td><td>'' @ nl @ nl @
              ''- b'' @ nl @ ''</td></tr></table>'' @ nl @ nl @
              ''- a'' @ nl @ ''- b'' @ nl @ nl @ ''Intro''"
  let ?cc = "''    <table><tr><td>'' @ nl @ nl @ ''    - a'' @ nl @
             ''    </td><td>'' @ nl @ nl @ ''    - b'' @ nl @
             ''    </td></tr></table>'' @ nl @ nl @
             ''    - a'' @ nl @ ''    - b'' @ nl @ nl @ ''    Intro''"
  have f: "\<not> fetches ex_para" "\<not> fetches ex_bullet_a" "\<not> fetches ex_bullet_b"
    "fetches ex_column_list"
    by code_simp+
  have g: "ex_getChildren (fst (getBlockIDAndHasChildren ex_column_list)) =
             Inr [ex_bullet_a, ex_bullet_b]"
    by code_simp
  have leaves: "fetch_ok ex_getChildren ex_para" "fetch_ok ex_getChildren ex_bullet_a"
    "fetch_ok ex_getChildren ex_bullet_b"
    using f by (simp_all add: fetch_ok.leaf)
  have "\<forall>c\<in>set [ex_bullet_a, ex_bullet_b]. fetch_ok ex_getChildren c"
    using leaves by simp
  from fetch_ok.node [OF f(4) g this] have cl: "fetch_ok ex_getChildren ex_column_list" .
  have gc: "cl_getChildren ?E = Some ex_getChildren"
    by (simp add: ex_tree_closure_def)
  have w: "walk_ok ?E ex_column_list" "walk_ok ?E ex_bullet_a" "walk_ok ?E ex_bullet_b"
    "walk_ok ?E ex_para"
    using cl leaves by (simp_all add: walk_ok_def gc)
  then have ok: "\<forall>b\<in>set ([ex_column_list] @ ex_bullet_a # ex_bullet_b # [ex_para]). walk_ok ?E b"
    by simp
  have bs: "[ex_column_list] @ ex_bullet_a # ex_bullet_b # [ex_para] = ?bs" by simp
  from C4_sibling_spacing [OF ok, where parent = ex_parent_item, unfolded bs] obtain n0 s1 s2 out cc where
    H: "\<forall>n\<ge>n0.
          (\<exists>k. renderTop n ?E ?bs [] False = Some (Inr out, k)) \<and>
          (\<exists>k. renderChildren n ?E ex_parent_item ?bs [] False = Some (Inr cc, k))"
    by blast
  have t: "renderTop (Suc (Suc 0)) ?E ?bs [] False = Some (Inr ?out, [''cl''])"
    by code_simp
  have c: "renderChildren (Suc (Suc 0)) ?E ex_parent_item ?bs [] False = Some (Inr ?cc, [''cl''])"
    by code_simp
  define n where "n = max n0 (Suc (Suc 0))"
  have n: "n0 \<le> n" "Suc (Suc 0) \<le> n" by (simp_all add: n_def)
  from H n(1) renderTop_fuel_mono [OF t n(2)] have out: "out = ?out" by auto
  from H n(1) renderChildren_fuel_mono [OF c n(2)] have cc: "cc = ?cc" by auto
  define P where "P m \<longleftrightarrow>
      (\<exists>k. renderTop m ?E ?bs [] False = Some (Inr ?out, k)) \<and>
      (\<exists>k. renderChildren m ?E ex_parent_item ?bs [] False = Some (Inr ?cc, k))" for m
  from H have "\<forall>m\<ge>n0. P m" unfolding P_def out cc .
  then have "\<exists>n0. \<forall>m\<ge>n0. P m" ..
  then have e: "\<exists>n0. \<forall>n\<ge>n0.
      (\<exists>k. renderTop n ?E ?bs [] False = Some (Inr ?out, k)) \<and>
      (\<exists>k. renderChildren n ?E ex_parent_item ?bs [] False = Some (Inr ?cc, k))"
    unfolding P_def .
  show ?thesis by (intro conjI) (rule w e)+
qed

text \<open>
  C7: for every page, if walking the block tree depth-first meets a block for which the
  children-fetch callback returns an error (the top-level blocks before it, and the
  blocks before it at every level, having been fetched without error), then with enough
  fuel for the depth of that block \<open>RenderPage\<close> returns that error; the result then
  carries neither a file name nor content.
\<close>

theorem C7_fetch_error_aborts_page:
  assumes pre: "\<forall>p\<in>set pre. fetch_ok gc p"
      and fails: "fetch_fails gc blk err"
  shows "\<exists>n0. \<forall>n\<ge>n0. \<exists>calls.
           RenderPage n L r pg (pre @ blk # post) (Some gc) resolve = Some (Inl err, calls)"
proof -
  define E where "E = \<lparr>cl_lib = L, cl_getChildren = Some gc,
      cl_resolve = (if resolve = None then rd_resolve r else resolve),
      cl_fileCache = rd_fileCache r, cl_articlePath = buildFilename (parseMetadata pg),
      cl_config = rd_config r\<rparr>"
  have gc: "cl_getChildren E = Some gc" by (simp add: E_def)
  from fetch_fails_renders [OF fails gc] obtain n1 where
    n1: "\<forall>n\<ge>n1. \<exists>k. renderBlock n E blk = Some (Inl err, k)" by blast
  have "\<forall>p\<in>set pre. \<exists>n0. \<forall>n\<ge>n0. \<exists>s l k. renderBlock n E p = Some (Inr (s, l), k)"
    using pre fetch_ok_renders [OF _ gc] by blast
  from uniform_fuel [OF this] obtain N where
    N: "\<forall>p\<in>set pre. \<forall>n\<ge>N. \<exists>s l k. renderBlock n E p = Some (Inr (s, l), k)"
    by blast
  have "\<forall>n\<ge>max N n1. \<exists>calls.
          RenderPage n L r pg (pre @ blk # post) (Some gc) resolve = Some (Inl err, calls)"
  proof (intro allI impI)
    fix n :: nat assume "max N n1 \<le> n"
    then have m: "N \<le> n" "n1 \<le> n" by auto
    from N m have a: "\<forall>p\<in>set pre. \<exists>s l k. renderBlock n E p = Some (Inr (s, l), k)" by simp
    from n1 m obtain k where b: "renderBlock n E blk = Some (Inl err, k)" by blast
    from renderTop_first_error [OF a b] obtain k' where
      "renderTop n E (pre @ blk # post) [] False = Some (Inl err, k')" by blast
    then show "\<exists>calls. RenderPage n L r pg (pre @ blk # post) (Some gc) resolve =
                 Some (Inl err, calls)"
      by (simp add: RenderPage_def renderBlocksRecursive_def E_def Let_def)
  qed
  then show ?thesis ..
qed

theorem C7_fetch_error_aborts_page_witness:
  "(\<exists>n0. \<forall>n\<ge>n0. \<exists>calls.
      RenderPage n ex_lib ex_renderer page_friends [ex_para, ex_parent_item, ex_bullet_b]
        (Some ex_getChildren) None = Some (Inl (Err ''transport error''), calls)) \<and>
   RenderPage (Suc (Suc 0)) ex_lib ex_renderer page_friends [ex_para, ex_parent_item, ex_bullet_b]
        (Some ex_getChildren) None = Some (Inl (Err ''transport error''), [''n'', ''t''])"
proof -
  have f: "\<not> fetches ex_para" "fetches ex_parent_item" "fetches ex_toggle"
    by code_simp+
  have g: "fst (getBlockIDAndHasChildren ex_parent_item) = ''n''"
    "fst (getBlockIDAndHasChildren ex_toggle) = ''t''"
    by code_simp+
  have c: "ex_getChildren ''n'' = Inr ([ex_para] @ ex_toggle # [ex_bullet_a])"
    "ex_getChildren ''t'' = Inl (Err ''transport error'')"
    by (simp_all add: ex_getChildren_def)
  have ok: "fetch_ok ex_getChildren ex_para"
    by (rule fetch_ok.leaf) (rule f(1))
  have tg: "fetch_fails ex_getChildren ex_toggle (Err ''transport error'')"
    by (rule fetch_fails.here) (simp_all add: f g c)
  have "ex_getChildren (fst (getBlockIDAndHasChildren ex_parent_item)) =
          Inr ([ex_para] @ ex_toggle # [ex_bullet_a])"
    by (simp add: g c)
  from fetch_fails.below [OF f(2) this _ tg] ok
  have fails: "fetch_fails ex_getChildren ex_parent_item (Err ''transport error'')"
    by simp
  have pre: "\<forall>p\<in>set [ex_para]. fetch_ok ex_getChildren p"
    using ok by simp
  have e: "RenderPage (Suc (Suc 0)) ex_lib ex_renderer page_friends [ex_para, ex_parent_item, ex_bullet_b]
        (Some ex_getChildren) None = Some (Inl (Err ''transport error''), [''n'', ''t''])"
    by code_simp
  from C7_fetch_error_aborts_page [OF pre fails, of ex_lib ex_renderer page_friends "[ex_bullet_b]" None] e
  show ?thesis by simp
qed

end
